theory Spec2Isabelle
  imports Complex_Main "HOL-Library.Multiset" "HOL-Library.AList" "HOL-Library.Product_Lexorder"
begin

section \<open>Dependency waves (app/services/doc\_generator.py)\<close>

text \<open>
  \<^verbatim>\<open>DocumentTemplate\<close>: the fields the scheduler and the generation loop read.
  \<^verbatim>\<open>dependencies\<close> is a Python list of doc-type names.
\<close>

record document_template =
  doc_type :: string
  title :: string
  prompt_template :: string
  dependencies :: "string list"
  estimated_tokens :: int

text \<open>
  \<^verbatim>\<open>list.remove(x)\<close> deletes the first element equal to \<open>x\<close> and raises
  \<^verbatim>\<open>ValueError\<close> when there is none; \<open>None\<close> is that exception. Python compares
  two templates by identity and the model by their fields: templates with equal fields
  are selected together, so removing the first equal one leaves the same list of values.
\<close>

fun list_remove :: "'a \<Rightarrow> 'a list \<Rightarrow> 'a list option" where
  "list_remove x [] = None"
| "list_remove x (y # ys) =
     (if x = y then Some ys else map_option ((#) y) (list_remove x ys))"

text \<open>
  The selection test of one template:
  \<^verbatim>\<open>all(dep in generated_types for dep in template.dependencies)\<close>.
\<close>

definition satisfied :: "string set \<Rightarrow> document_template \<Rightarrow> bool" where
  "satisfied generated_types template =
     list_all (\<lambda>dep. dep \<in> generated_types) (dependencies template)"

text \<open>
  The second \<^verbatim>\<open>for\<close> loop of an iteration:
  \<^verbatim>\<open>for template in current_wave: remaining.remove(template); generated_types.add(template.doc_type)\<close>.
\<close>

fun place_wave ::
  "document_template list \<Rightarrow> document_template list \<times> string set
     \<Rightarrow> (document_template list \<times> string set) option" where
  "place_wave [] st = Some st"
| "place_wave (template # rest) (remaining, generated_types) =
     (case list_remove template remaining of
        None \<Rightarrow> None
      | Some remaining' \<Rightarrow>
          place_wave rest (remaining', insert (doc_type template) generated_types))"

text \<open>The wave an iteration selects, with the fallback to everything that remains.\<close>

definition select_wave :: "document_template list \<Rightarrow> string set \<Rightarrow> document_template list" where
  "select_wave remaining generated_types =
     (let current_wave = filter (satisfied generated_types) remaining
      in if current_wave = [] then remaining else current_wave)"

lemma list_remove_length:
  "list_remove x xs = Some ys \<Longrightarrow> Suc (length ys) = length xs"
  by (induction xs arbitrary: ys) (auto split: if_splits)

lemma place_wave_length:
  "place_wave w (r, g) = Some (r', g') \<Longrightarrow> length r' + length w = length r"
proof (induction w arbitrary: r g)
  case Nil
  then show ?case by simp
next
  case (Cons t w)
  then show ?case
    by (auto split: option.splits dest!: list_remove_length)
qed

text \<open>
  The \<^verbatim>\<open>while remaining:\<close> loop. \<open>None\<close> is the \<^verbatim>\<open>ValueError\<close> of
  \<^verbatim>\<open>remaining.remove\<close>; the loop itself always ends, since every iteration removes
  a non-empty wave.
\<close>

function build_loop ::
  "document_template list \<Rightarrow> string set \<Rightarrow> document_template list list
     \<Rightarrow> document_template list list option" where
  "build_loop remaining generated_types waves =
     (if remaining = [] then Some waves
      else
        (case place_wave (select_wave remaining generated_types) (remaining, generated_types) of
           None \<Rightarrow> None
         | Some (remaining', generated_types') \<Rightarrow>
             build_loop remaining' generated_types'
               (waves @ [select_wave remaining generated_types])))"
  by pat_completeness auto
termination
proof (relation "measure (\<lambda>(remaining, _, _). length remaining)", goal_cases)
  case 1
  show ?case by simp
next
  case (2 remaining generated_types waves x2 remaining' generated_types')
  have ne: "select_wave remaining generated_types \<noteq> []"
    using 2(1) by (simp add: select_wave_def Let_def)
  from 2(2) have "place_wave (select_wave remaining generated_types) (remaining, generated_types)
      = Some (remaining', generated_types')"
    using 2(3) by simp
  from place_wave_length[OF this] ne show ?case
    by (cases "select_wave remaining generated_types") auto
qed

definition build_dependency_graph ::
  "document_template list \<Rightarrow> document_template list list option" where
  "build_dependency_graph templates = build_loop templates {} []"

text \<open>
  The dependency relation of a template list: \<open>(d, n)\<close> when a template named \<open>n\<close>
  lists \<open>d\<close> among its dependencies. A template set has no dependency cycle when this
  relation is acyclic.
\<close>

definition dep_rel :: "document_template list \<Rightarrow> (string \<times> string) set" where
  "dep_rel templates =
     set (concat (map (\<lambda>t. map (\<lambda>d. (d, doc_type t)) (dependencies t)) templates))"

text \<open>
  Four templates with the doc types, titles, dependencies and sizes of
  \<^verbatim>\<open>STANDARD_DOC_TEMPLATES\<close>; their prompt texts, which the scheduler and the generation
  loop do not read, are shortened.
\<close>

definition example_prd :: document_template where
  "example_prd = \<lparr>doc_type = ''PRD'', title = ''Product Requirements Document'',
     prompt_template = ''Write a PRD for {project_name}'', dependencies = [],
     estimated_tokens = 3000\<rparr>"

definition example_technical_spec :: document_template where
  "example_technical_spec = \<lparr>doc_type = ''TechnicalSpec'', title = ''Technical Specification'',
     prompt_template = ''Write a spec for {project_name}'', dependencies = [''PRD''],
     estimated_tokens = 4000\<rparr>"

definition example_api_doc :: document_template where
  "example_api_doc = \<lparr>doc_type = ''APIDoc'', title = ''API Documentation'',
     prompt_template = ''Write API docs for {project_name}'', dependencies = [''TechnicalSpec''],
     estimated_tokens = 3500\<rparr>"

definition example_architecture :: document_template where
  "example_architecture = \<lparr>doc_type = ''Architecture'', title = ''Architecture Documentation'',
     prompt_template = ''Write architecture docs for {project_name}'',
     dependencies = [''TechnicalSpec''], estimated_tokens = 2000\<rparr>"



text \<open>
  Every dependency of a template of wave \<open>i\<close> is the doc type of a template of an earlier
  wave.
\<close>

definition deps_respected :: "document_template list list \<Rightarrow> bool" where
  "deps_respected waves =
     (\<forall>i<length waves. \<forall>t\<in>set (waves ! i). \<forall>d\<in>set (dependencies t).
        \<exists>j<i. d \<in> doc_type ` set (waves ! j))"


section \<open>Values shared by the services\<close>

text \<open>
  A \<^verbatim>\<open>UUID\<close> is carried in its canonical text form, so \<^verbatim>\<open>str(uuid)\<close> is the identity.
  A Python \<^verbatim>\<open>Dict[str, Any]\<close> is an association list in insertion order; a \<^verbatim>\<open>float\<close> is a
  real number (the only float operations of the modelled code are one division of two
  integers, a subtraction of a constant and \<^verbatim>\<open>min\<close> with 1.0).
\<close>

type_synonym uuid = string

datatype json =
  JNull
| JBool bool
| JInt int
| JFloat real
| JString string
| JArray "json list"
| JObject "(string \<times> json) list"

type_synonym py_dict = "(string \<times> json) list"

text \<open>The exceptions that leave the modelled functions.\<close>

datatype py_error =
  ZeroDivisionError
| ValueError string
| IntegrityError
| RuntimeError
| KeyError

text \<open>\<^verbatim>\<open>d[k] = v\<close>: replaces the value of a present key in place, appends an absent one.\<close>

definition dict_set :: "string \<Rightarrow> json \<Rightarrow> py_dict \<Rightarrow> py_dict" where
  "dict_set k v d = AList.update k v d"

text \<open>\<^verbatim>\<open>{**a, **b}\<close>: the keys of \<open>b\<close> are assigned, in order, into a copy of \<open>a\<close>.\<close>

definition dict_merge :: "py_dict \<Rightarrow> py_dict \<Rightarrow> py_dict" where
  "dict_merge a b = fold (\<lambda>(k, v). dict_set k v) b a"

text \<open>
  A Python \<^verbatim>\<open>set\<close> of connections is the list of its members, without repetition, in the
  order the \<^verbatim>\<open>for\<close> loop visits them; that order is unspecified in Python, and the
  properties below hold for every list.
\<close>

definition set_add :: "'a \<Rightarrow> 'a list \<Rightarrow> 'a list" where
  "set_add x xs = (if x \<in> set xs then xs else xs @ [x])"

definition set_discard :: "'a \<Rightarrow> 'a list \<Rightarrow> 'a list" where
  "set_discard x xs = removeAll x xs"

section \<open>The connection manager (app/services/streaming.py)\<close>

type_synonym websocket = nat

record connection_manager =
  project_connections :: "string \<rightharpoonup> websocket list"
  document_connections :: "string \<rightharpoonup> websocket list"
  global_connections :: "websocket list"

text \<open>
  \<^verbatim>\<open>ConnectionManager.disconnect\<close>. \<open>scope_id\<close> is an \<^verbatim>\<open>Optional[str]\<close>: \<open>None\<close> and
  the empty string are both false in \<^verbatim>\<open>scope == "project" and scope_id\<close>.
\<close>

definition disconnect ::
  "websocket \<Rightarrow> string \<Rightarrow> string option \<Rightarrow> connection_manager \<Rightarrow> connection_manager" where
  "disconnect websocket scope scope_id m =
     (if scope = ''global'' then
        m\<lparr>global_connections := set_discard websocket (global_connections m)\<rparr>
      else
        (case scope_id of
           None \<Rightarrow> m
         | Some key \<Rightarrow>
             if key = [] then m
             else if scope = ''project'' then
               (case project_connections m key of
                  None \<Rightarrow> m
                | Some bucket \<Rightarrow>
                    (let bucket' = set_discard websocket bucket in
                     if bucket' = [] then
                       m\<lparr>project_connections := (project_connections m)(key := None)\<rparr>
                     else
                       m\<lparr>project_connections := (project_connections m)(key \<mapsto> bucket')\<rparr>))
             else if scope = ''document'' then
               (case document_connections m key of
                  None \<Rightarrow> m
                | Some bucket \<Rightarrow>
                    (let bucket' = set_discard websocket bucket in
                     if bucket' = [] then
                       m\<lparr>document_connections := (document_connections m)(key := None)\<rparr>
                     else
                       m\<lparr>document_connections := (document_connections m)(key \<mapsto> bucket')\<rparr>))
             else m))"

text \<open>
  \<^verbatim>\<open>ConnectionManager.connect\<close>, after the \<^verbatim>\<open>accept\<close> handshake has returned.
\<close>

definition connect ::
  "websocket \<Rightarrow> string \<Rightarrow> string option \<Rightarrow> connection_manager \<Rightarrow> connection_manager" where
  "connect websocket scope scope_id m =
     (if scope = ''global'' then
        m\<lparr>global_connections := set_add websocket (global_connections m)\<rparr>
      else
        (case scope_id of
           None \<Rightarrow> m
         | Some key \<Rightarrow>
             if key = [] then m
             else if scope = ''project'' then
               (let bucket = (case project_connections m key of None \<Rightarrow> [] | Some b \<Rightarrow> b)
                in m\<lparr>project_connections :=
                       (project_connections m)(key \<mapsto> set_add websocket bucket)\<rparr>)
             else if scope = ''document'' then
               (let bucket = (case document_connections m key of None \<Rightarrow> [] | Some b \<Rightarrow> b)
                in m\<lparr>document_connections :=
                       (document_connections m)(key \<mapsto> set_add websocket bucket)\<rparr>)
             else m))"

text \<open>
  While a broadcast awaits a send, the event loop runs other tasks, and the handler
  tasks of other connections (\<^verbatim>\<open>handle_websocket_connection\<close>) call \<^verbatim>\<open>manager.connect\<close> and
  \<^verbatim>\<open>manager.disconnect\<close> on the same manager. \<open>during c\<close> is what another task does to the
  manager while the send to connection \<open>c\<close> is awaited: nothing, one connect or one
  disconnect.
\<close>

datatype task_action =
  Connects websocket string "string option"
| Disconnects websocket string "string option"

definition other_task :: "task_action option \<Rightarrow> connection_manager \<Rightarrow> connection_manager" where
  "other_task action m =
     (case action of
        None \<Rightarrow> m
      | Some (Connects websocket scope scope_id) \<Rightarrow> connect websocket scope scope_id m
      | Some (Disconnects websocket scope scope_id) \<Rightarrow> disconnect websocket scope scope_id m)"

text \<open>
  The number of members of the set the loop iterates. \<^verbatim>\<open>disconnect\<close> deletes the key of a
  bucket it has emptied; the set object, still held by the loop, is then empty.
\<close>

definition bucket_size :: "websocket list option \<Rightarrow> nat" where
  "bucket_size bucket = (case bucket of None \<Rightarrow> 0 | Some members \<Rightarrow> length members)"

text \<open>
  The first loop of a broadcast:
  \<^verbatim>\<open>for connection in self.project_connections[project_id]: try: await
  connection.send_json(message) except Exception: disconnected.add(connection)\<close>.
  The loop iterates the bucket itself, not a copy. Each step of the \<^verbatim>\<open>for\<close> statement,
  the last one included, first asks the set iterator for the next member, and the
  iterator raises \<^verbatim>\<open>RuntimeError\<close> (set changed size during iteration) when the set no longer
  has the size \<open>used\<close> it had when the loop began. That happens in the \<^verbatim>\<open>for\<close> statement,
  outside the \<^verbatim>\<open>try\<close>, so the exception leaves the function. \<open>send_ok c\<close> tells whether
  \<^verbatim>\<open>send_json\<close> on connection \<open>c\<close> returns; when it does not, it raises an \<^verbatim>\<open>Exception\<close>, which
  the loop catches. \<open>lookup\<close> reads the bucket of the broadcast's key in the manager. The
  state is the manager, the log of the messages delivered, in order, and the set
  \<^verbatim>\<open>disconnected\<close>.
\<close>

fun send_loop ::
  "(websocket \<Rightarrow> bool) \<Rightarrow> (websocket \<Rightarrow> task_action option)
     \<Rightarrow> (connection_manager \<Rightarrow> websocket list option) \<Rightarrow> nat \<Rightarrow> 'm \<Rightarrow> websocket list
     \<Rightarrow> connection_manager \<times> (websocket \<times> 'm) list \<times> websocket list
     \<Rightarrow> (connection_manager \<times> (websocket \<times> 'm) list \<times> websocket list) \<times> py_error option" where
  "send_loop send_ok during lookup used message [] (m, sent, disconnected) =
     ((m, sent, disconnected),
      if bucket_size (lookup m) \<noteq> used then Some RuntimeError else None)"
| "send_loop send_ok during lookup used message (connection # rest) (m, sent, disconnected) =
     (if bucket_size (lookup m) \<noteq> used then ((m, sent, disconnected), Some RuntimeError)
      else
        (let m' = other_task (during connection) m in
         if send_ok connection
         then send_loop send_ok during lookup used message rest
                (m', sent @ [(connection, message)], disconnected)
         else send_loop send_ok during lookup used message rest
                (m', sent, set_add connection disconnected)))"

text \<open>
  The second loop:
  \<^verbatim>\<open>for connection in disconnected: self.project_connections[project_id].discard(connection)\<close>.
  It awaits nothing, so no other task runs during it. The subscript raises \<^verbatim>\<open>KeyError\<close>
  when the key is gone. \<open>store\<close> writes the bucket of the broadcast's key.
\<close>

fun clean_up ::
  "(connection_manager \<Rightarrow> websocket list option)
     \<Rightarrow> (websocket list \<Rightarrow> connection_manager \<Rightarrow> connection_manager)
     \<Rightarrow> websocket list \<Rightarrow> connection_manager \<Rightarrow> connection_manager \<times> py_error option" where
  "clean_up lookup store [] m = (m, None)"
| "clean_up lookup store (connection # rest) m =
     (case lookup m of
        None \<Rightarrow> (m, Some KeyError)
      | Some bucket \<Rightarrow> clean_up lookup store rest (store (set_discard connection bucket) m))"

text \<open>
  The body shared by \<^verbatim>\<open>broadcast_to_project\<close> and \<^verbatim>\<open>broadcast_to_document\<close>, which differ
  in the dict they use. The result is the manager after the call, the log of the messages
  delivered, and the exception the call raised, if any.
\<close>

definition broadcast ::
  "(websocket \<Rightarrow> bool) \<Rightarrow> (websocket \<Rightarrow> task_action option)
     \<Rightarrow> (connection_manager \<Rightarrow> websocket list option)
     \<Rightarrow> (websocket list \<Rightarrow> connection_manager \<Rightarrow> connection_manager)
     \<Rightarrow> 'm \<Rightarrow> connection_manager
     \<Rightarrow> connection_manager \<times> (websocket \<times> 'm) list \<times> py_error option" where
  "broadcast send_ok during lookup store message m =
     (case lookup m of
        None \<Rightarrow> (m, [], None)
      | Some bucket \<Rightarrow>
          (case send_loop send_ok during lookup (length bucket) message bucket (m, [], []) of
             ((m', sent, disconnected), Some e) \<Rightarrow> (m', sent, Some e)
           | ((m', sent, disconnected), None) \<Rightarrow>
               (case clean_up lookup store disconnected m' of
                  (m'', outcome) \<Rightarrow> (m'', sent, outcome))))"

definition broadcast_to_project ::
  "(websocket \<Rightarrow> bool) \<Rightarrow> (websocket \<Rightarrow> task_action option) \<Rightarrow> string \<Rightarrow> 'm
     \<Rightarrow> connection_manager \<Rightarrow> connection_manager \<times> (websocket \<times> 'm) list \<times> py_error option" where
  "broadcast_to_project send_ok during project_id message m =
     broadcast send_ok during
       (\<lambda>m. project_connections m project_id)
       (\<lambda>bucket m. m\<lparr>project_connections := (project_connections m)(project_id \<mapsto> bucket)\<rparr>)
       message m"

definition broadcast_to_document ::
  "(websocket \<Rightarrow> bool) \<Rightarrow> (websocket \<Rightarrow> task_action option) \<Rightarrow> string \<Rightarrow> 'm
     \<Rightarrow> connection_manager \<Rightarrow> connection_manager \<times> (websocket \<times> 'm) list \<times> py_error option" where
  "broadcast_to_document send_ok during document_id message m =
     broadcast send_ok during
       (\<lambda>m. document_connections m document_id)
       (\<lambda>bucket m. m\<lparr>document_connections := (document_connections m)(document_id \<mapsto> bucket)\<rparr>)
       message m"

section \<open>Stream events (app/services/streaming.py)\<close>

text \<open>
  \<^verbatim>\<open>StreamEvent\<close> with the two fields \<^verbatim>\<open>to_sse\<close> serialises. The \<^verbatim>\<open>timestamp\<close> field, read
  from the clock, is left out.
\<close>

record stream_event =
  event_type :: string
  data :: py_dict

text \<open>
  \<^verbatim>\<open>DocumentStreamEvent.__init__\<close>. \<^verbatim>\<open>if content_chunk:\<close> is false for \<^verbatim>\<open>None\<close> and for the
  empty string, \<^verbatim>\<open>if metadata:\<close> for \<^verbatim>\<open>None\<close> and for the empty dict.
\<close>

definition DocumentStreamEvent ::
  "uuid \<Rightarrow> string \<Rightarrow> string option \<Rightarrow> real \<Rightarrow> py_dict option \<Rightarrow> stream_event" where
  "DocumentStreamEvent document_id event_type' content_chunk progress metadata =
     (let data0 = [(''document_id'', JString document_id), (''progress'', JFloat progress)];
          data1 = (case content_chunk of
                     None \<Rightarrow> data0
                   | Some chunk \<Rightarrow>
                       if chunk \<noteq> [] then dict_set ''content_chunk'' (JString chunk) data0
                       else data0);
          data2 = (case metadata of
                     None \<Rightarrow> data1
                   | Some md \<Rightarrow>
                       if md \<noteq> [] then dict_set ''metadata'' (JObject md) data1
                       else data1)
      in \<lparr>event_type = event_type', data = data2\<rparr>)"

text \<open>
  \<^verbatim>\<open>to_sse\<close>; \<^verbatim>\<open>json.dumps\<close> is the library's serialiser, taken as a parameter.
\<close>

definition to_sse :: "(py_dict \<Rightarrow> string) \<Rightarrow> stream_event \<Rightarrow> string" where
  "to_sse dumps e =
     ''event: '' @ event_type e @ [CHR 0x0A] @ ''data: '' @ dumps (data e) @ [CHR 0x0A, CHR 0x0A]"

text \<open>
  The content generator handed to \<^verbatim>\<open>document_stream_generator\<close>: the chunks it yields, and
  how it ends, by exhaustion or by raising an \<^verbatim>\<open>Exception\<close> whose \<^verbatim>\<open>str\<close> is the message.
\<close>

datatype generator_end = Exhausted | Raised string

text \<open>The \<^verbatim>\<open>async for\<close> loop of \<^verbatim>\<open>document_stream_generator\<close>.\<close>

fun stream_chunks :: "uuid \<Rightarrow> nat \<Rightarrow> string list \<Rightarrow> stream_event list" where
  "stream_chunks document_id total_chars [] = []"
| "stream_chunks document_id total_chars (chunk # rest) =
     (let total_chars' = total_chars + length chunk
      in DocumentStreamEvent document_id ''content_chunk'' (Some chunk)
           (min (real total_chars' / 10000) 1) None
         # stream_chunks document_id total_chars' rest)"

text \<open>
  \<^verbatim>\<open>document_stream_generator\<close>: the events it yields, in order, each before \<^verbatim>\<open>to_sse\<close>.
\<close>

definition document_stream_generator ::
  "uuid \<Rightarrow> string list \<times> generator_end \<Rightarrow> stream_event list" where
  "document_stream_generator document_id content_generator =
     (case content_generator of (chunks, ending) \<Rightarrow>
        DocumentStreamEvent document_id ''start'' None 0 None
        # stream_chunks document_id 0 chunks
        @ [case ending of
             Exhausted \<Rightarrow> DocumentStreamEvent document_id ''complete'' None 1 None
           | Raised msg \<Rightarrow>
               DocumentStreamEvent document_id ''error'' None 0
                 (Some [(''error'', JString msg)])])"

definition document_stream_sse ::
  "(py_dict \<Rightarrow> string) \<Rightarrow> uuid \<Rightarrow> string list \<times> generator_end \<Rightarrow> string list" where
  "document_stream_sse dumps document_id content_generator =
     map (to_sse dumps) (document_stream_generator document_id content_generator)"

section \<open>The generation loop (app/services/doc\_generator.py)\<close>

text \<open>The message of one chunk, as handed to \<^verbatim>\<open>manager.broadcast_to_document\<close>.\<close>

definition content_chunk_message :: "uuid \<Rightarrow> string \<Rightarrow> real \<Rightarrow> py_dict" where
  "content_chunk_message document_id chunk progress =
     [(''event'', JString ''content_chunk''),
      (''data'', JObject [(''document_id'', JString document_id),
                          (''chunk'', JString chunk),
                          (''progress'', JFloat progress)])]"

text \<open>
  The \<^verbatim>\<open>async for chunk in ...\<close> loop of \<^verbatim>\<open>_generate_single_document\<close>. The state is the
  accumulated \<^verbatim>\<open>full_content\<close> and the messages broadcast so far to the document's scope.
  \<^verbatim>\<open>len(full_content) / template.estimated_tokens\<close> raises \<^verbatim>\<open>ZeroDivisionError\<close> when the
  template's size is 0.
\<close>

fun generation_loop ::
  "uuid \<Rightarrow> document_template \<Rightarrow> string list \<Rightarrow> string \<times> py_dict list
     \<Rightarrow> py_error + (string \<times> py_dict list)" where
  "generation_loop document_id template [] st = Inr st"
| "generation_loop document_id template (chunk # rest) (full_content, broadcasts) =
     (let full_content' = full_content @ chunk in
      if estimated_tokens template = 0 then Inl ZeroDivisionError
      else generation_loop document_id template rest
             (full_content',
              broadcasts @ [content_chunk_message document_id chunk
                 (real (length full_content') / real_of_int (estimated_tokens template))]))"

text \<open>The \<open>progress\<close> a content-chunk message carries.\<close>

definition message_progress :: "py_dict \<Rightarrow> json option" where
  "message_progress message =
     (case map_of message ''data'' of
        Some (JObject d) \<Rightarrow> map_of d ''progress''
      | _ \<Rightarrow> None)"

section \<open>The diff service (app/services/version\_manager.py)\<close>

text \<open>
  \<^verbatim>\<open>str.splitlines()\<close>, for strings of characters with code points below 256: a line
  ends at \<^verbatim>\<open>\r\n\<close> or at one of the line-boundary characters, and a final line break
  opens no further line.
\<close>

definition is_line_break :: "char \<Rightarrow> bool" where
  "is_line_break c =
     (c \<in> set [CHR 0x0A, CHR 0x0B, CHR 0x0C, CHR 0x0D, CHR 0x1C, CHR 0x1D, CHR 0x1E, CHR 0x85])"

fun splitlines_from :: "string \<Rightarrow> string \<Rightarrow> string list" where
  "splitlines_from line [] = (if line = [] then [] else [line])"
| "splitlines_from line [c] = (if is_line_break c then [line] else [line @ [c]])"
| "splitlines_from line (c # d # cs) =
     (if c = CHR 0x0D \<and> d = CHR 0x0A then line # splitlines_from [] cs
      else if is_line_break c then line # splitlines_from [] (d # cs)
      else splitlines_from (line @ [c]) (d # cs))"

definition splitlines :: "string \<Rightarrow> string list" where
  "splitlines s = splitlines_from [] s"

definition startswith :: "string \<Rightarrow> string \<Rightarrow> bool" where
  "startswith s pre = (take (length pre) s = pre)"

text \<open>
  A Python generator object is the list of the items it has not yielded yet. \<^verbatim>\<open>list(g)\<close>
  and \<^verbatim>\<open>sum(1 for line in g if p(line))\<close> both run it to its end: they return their result
  and leave the generator exhausted.
\<close>

type_synonym 'a generator = "'a list"

definition gen_list :: "'a generator \<Rightarrow> 'a list \<times> 'a generator" where
  "gen_list g = (g, [])"

definition gen_count :: "('a \<Rightarrow> bool) \<Rightarrow> 'a generator \<Rightarrow> int \<times> 'a generator" where
  "gen_count p g = (int (length (filter p g)), [])"

record diff_result =
  diff_lines :: "string list"
  added_lines :: int
  removed_lines :: int

text \<open>
  \<^verbatim>\<open>VersionDiffService.compute_diff\<close>. \<open>unified_diff\<close> stands for the library call
  \<^verbatim>\<open>difflib.unified_diff(lines_a, lines_b, lineterm='', n=3)\<close> and gives the lines its
  generator yields. The three entries of the returned dict are evaluated in order, all
  on the one generator \<^verbatim>\<open>diff\<close>.
\<close>

definition compute_diff ::
  "(string list \<Rightarrow> string list \<Rightarrow> string list) \<Rightarrow> string \<Rightarrow> string \<Rightarrow> diff_result" where
  "compute_diff unified_diff content_a content_b =
     (let lines_a = splitlines content_a;
          lines_b = splitlines content_b;
          diff = unified_diff lines_a lines_b;
          (diff_lines', diff1) = gen_list diff;
          (added, diff2) = gen_count (\<lambda>line. startswith line ''+'') diff1;
          (removed, diff3) = gen_count (\<lambda>line. startswith line ''-'') diff2
      in \<lparr>diff_lines = diff_lines', added_lines = added, removed_lines = removed\<rparr>)"

text \<open>A manager with one project bucket and one document bucket.\<close>

definition example_manager :: connection_manager where
  "example_manager = \<lparr>project_connections = [''p1'' \<mapsto> [7, 8, 9]],
     document_connections = [''d1'' \<mapsto> [4, 5]], global_connections = []\<rparr>"

section \<open>The version manager (app/services/version\_manager.py)\<close>

text \<open>
  The rows of \<^verbatim>\<open>GraphNode\<close>, \<^verbatim>\<open>DocumentNode\<close> and \<^verbatim>\<open>GraphEdge\<close>
  (app/models/graph\_node.py), with a prefix on every field name; the columns read from
  the clock (\<^verbatim>\<open>created_at\<close>, \<^verbatim>\<open>updated_at\<close>) and \<^verbatim>\<open>created_by\<close> are left out. Enum members
  are carried as their string values.
\<close>

record graph_node =
  gn_id :: uuid
  gn_node_type :: string
  gn_layer :: string
  gn_label :: string
  gn_description :: "string option"
  gn_position_x :: real
  gn_position_y :: real
  gn_position_z :: int
  gn_width :: real
  gn_height :: real
  gn_color :: "string option"
  gn_is_expanded :: bool
  gn_parent_id :: "uuid option"
  gn_project_id :: "uuid option"
  gn_data :: py_dict

record document_node =
  dn_id :: uuid
  dn_graph_node_id :: uuid
  dn_title :: string
  dn_doc_type :: string
  dn_content :: string
  dn_content_format :: string
  dn_version :: int
  dn_parent_version_id :: "uuid option"
  dn_is_latest :: bool
  dn_is_generating :: bool
  dn_generation_progress :: real
  dn_generated_by_agent :: "string option"
  dn_tags :: "string list"
  dn_metadata :: py_dict
  dn_project_id :: uuid

record graph_edge =
  ge_id :: uuid
  ge_edge_type :: string
  ge_source_id :: uuid
  ge_target_id :: uuid
  ge_label :: "string option"
  ge_color :: "string option"
  ge_is_animated :: bool
  ge_data :: py_dict

text \<open>
  The committed rows of the three tables, in insertion order, as the session reads them.
\<close>

record session =
  documents :: "document_node list"
  graph_nodes :: "graph_node list"
  graph_edges :: "graph_edge list"

text \<open>\<^verbatim>\<open>session.get(DocumentNode, id)\<close> and \<^verbatim>\<open>session.get(GraphNode, id)\<close>.\<close>

definition get_document :: "session \<Rightarrow> uuid \<Rightarrow> document_node option" where
  "get_document s i = find (\<lambda>d. dn_id d = i) (documents s)"

definition get_graph_node :: "session \<Rightarrow> uuid \<Rightarrow> graph_node option" where
  "get_graph_node s i = find (\<lambda>g. gn_id g = i) (graph_nodes s)"

text \<open>\<^verbatim>\<open>str\<close> of an integer, for the f-strings of the labels.\<close>

fun str_nat :: "nat \<Rightarrow> string" where
  "str_nat n =
     (if n < 10 then [''0123456789'' ! n]
      else str_nat (n div 10) @ [''0123456789'' ! (n mod 10)])"

declare str_nat.simps [simp del]

definition str_int :: "int \<Rightarrow> string" where
  "str_int i = (if i < 0 then CHR ''-'' # str_nat (nat (- i)) else str_nat (nat i))"

definition STACK_Z_OFFSET :: int where
  "STACK_Z_OFFSET = 1"

definition STACK_Y_OFFSET :: real where
  "STACK_Y_OFFSET = 20"

text \<open>
  \<^verbatim>\<open>_get_root_id\<close>: the \<^verbatim>\<open>while current.parent_version_id:\<close> loop follows the parent links
  until a document has no parent or its parent is not found. On a cycle of parent links
  the loop does not end; \<open>None\<close> is that case.
\<close>

partial_function (option) get_root_id :: "session \<Rightarrow> document_node \<Rightarrow> uuid option" where
  "get_root_id s current =
     (case dn_parent_version_id current of
        None \<Rightarrow> Some (dn_id current)
      | Some parent_id \<Rightarrow>
          (case get_document s parent_id of
             None \<Rightarrow> Some (dn_id current)
           | Some parent \<Rightarrow> get_root_id s parent))"

declare get_root_id.simps [code]

text \<open>
  \<^verbatim>\<open>VersionManager.create_new_version\<close>. The three new primary keys, which the models
  draw with \<^verbatim>\<open>uuid4\<close>, are arguments. The result is \<open>None\<close> when the root walk does not
  end; otherwise it is the committed rows after the call, with the new document or the
  exception raised. A \<^verbatim>\<open>ValueError\<close> is raised before the first commit, so the pending
  change of \<^verbatim>\<open>is_latest\<close> is not committed. A commit that would repeat a primary key, or
  the unique \<^verbatim>\<open>graph_node_id\<close> of a document, raises \<^verbatim>\<open>IntegrityError\<close> and commits nothing.
  The first commit writes the pending \<^verbatim>\<open>is_latest\<close> of the current document (an
  \<^verbatim>\<open>UPDATE\<close> of that column in the row of that id) and the new graph node; the second
  writes the new document and the edge. The last statement builds the coroutine of
  \<^verbatim>\<open>_broadcast_version_created\<close> without awaiting it, so nothing is broadcast.
\<close>

definition create_new_version ::
  "session \<Rightarrow> uuid \<Rightarrow> string \<Rightarrow> py_dict option \<Rightarrow> uuid \<Rightarrow> uuid \<Rightarrow> uuid
     \<Rightarrow> (session \<times> (py_error + document_node)) option" where
  "create_new_version s document_id new_content metadata new_node_id new_doc_id new_edge_id =
     (case get_document s document_id of
        None \<Rightarrow> Some (s, Inl (ValueError (''Document '' @ document_id @ '' not found'')))
      | Some doc \<Rightarrow>
          (let current_doc = doc\<lparr>dn_is_latest := False\<rparr>;
               pending = s\<lparr>documents :=
                  map (\<lambda>d. if dn_id d = dn_id current_doc then d\<lparr>dn_is_latest := False\<rparr> else d)
                    (documents s)\<rparr>
           in case get_root_id pending current_doc of
                None \<Rightarrow> None
              | Some root_id \<Rightarrow>
                 (case get_graph_node pending (dn_graph_node_id current_doc) of
                    None \<Rightarrow>
                      Some (s, Inl (ValueError
                        (''Graph node '' @ dn_graph_node_id current_doc @ '' not found'')))
                  | Some current_graph_node \<Rightarrow>
                      (let new_graph_node = \<lparr>
                             gn_id = new_node_id,
                             gn_node_type = gn_node_type current_graph_node,
                             gn_layer = gn_layer current_graph_node,
                             gn_label = dn_title current_doc @ '' v''
                                          @ str_int (dn_version current_doc + 1),
                             gn_description = gn_description current_graph_node,
                             gn_position_x = gn_position_x current_graph_node,
                             gn_position_y = gn_position_y current_graph_node - STACK_Y_OFFSET,
                             gn_position_z = gn_position_z current_graph_node + STACK_Z_OFFSET,
                             gn_width = gn_width current_graph_node,
                             gn_height = gn_height current_graph_node,
                             gn_color = gn_color current_graph_node,
                             gn_is_expanded = False,
                             gn_parent_id = Some (gn_id current_graph_node),
                             gn_project_id = gn_project_id current_graph_node,
                             gn_data =
                               dict_set ''parent_version_id'' (JString (dn_id current_doc))
                                 (dict_set ''version'' (JInt (dn_version current_doc + 1))
                                    (gn_data current_graph_node))\<rparr>
                       in if new_node_id \<in> gn_id ` set (graph_nodes pending)
                          then Some (s, Inl IntegrityError)
                          else
                            (let s1 = pending\<lparr>graph_nodes :=
                                         graph_nodes pending @ [new_graph_node]\<rparr>;
                                 new_doc = \<lparr>
                                    dn_id = new_doc_id,
                                    dn_graph_node_id = gn_id new_graph_node,
                                    dn_title = dn_title current_doc,
                                    dn_doc_type = dn_doc_type current_doc,
                                    dn_content = new_content,
                                    dn_content_format = dn_content_format current_doc,
                                    dn_version = dn_version current_doc + 1,
                                    dn_parent_version_id = Some (dn_id current_doc),
                                    dn_is_latest = True,
                                    dn_is_generating = False,
                                    dn_generation_progress = 0,
                                    dn_generated_by_agent = None,
                                    dn_tags = dn_tags current_doc,
                                    dn_metadata =
                                      dict_merge (dn_metadata current_doc)
                                        (case metadata of None \<Rightarrow> [] | Some m \<Rightarrow> m),
                                    dn_project_id = dn_project_id current_doc\<rparr>;
                                 version_edge = \<lparr>
                                    ge_id = new_edge_id,
                                    ge_edge_type = ''supersedes'',
                                    ge_source_id = gn_id new_graph_node,
                                    ge_target_id = gn_id current_graph_node,
                                    ge_label = Some (''v'' @ str_int (dn_version new_doc)),
                                    ge_color = None,
                                    ge_is_animated = False,
                                    ge_data = [(''version_link'', JBool True)]\<rparr>
                             in if new_doc_id \<in> dn_id ` set (documents s1)
                                   \<or> gn_id new_graph_node \<in> dn_graph_node_id ` set (documents s1)
                                   \<or> new_edge_id \<in> ge_id ` set (graph_edges s1)
                                then Some (s1, Inl IntegrityError)
                                else Some (s1\<lparr>documents := documents s1 @ [new_doc],
                                               graph_edges := graph_edges s1 @ [version_edge]\<rparr>,
                                           Inr new_doc))))))"

text \<open>
  The chain of a root: the documents whose root walk ends at that root, in insertion
  order.
\<close>

definition chain :: "session \<Rightarrow> uuid \<Rightarrow> document_node list" where
  "chain s root_id = filter (\<lambda>d. get_root_id s d = Some root_id) (documents s)"

text \<open>
  One request: the document id, the content, the metadata and the three keys drawn for
  the call. \<open>run_calls\<close> makes the calls one after the other on the rows the one before
  left.
\<close>

record version_call =
  call_document_id :: uuid
  call_content :: string
  call_metadata :: "py_dict option"
  call_node_id :: uuid
  call_doc_id :: uuid
  call_edge_id :: uuid

definition call_create ::
  "session \<Rightarrow> version_call \<Rightarrow> (session \<times> (py_error + document_node)) option" where
  "call_create s c =
     create_new_version s (call_document_id c) (call_content c) (call_metadata c)
       (call_node_id c) (call_doc_id c) (call_edge_id c)"

fun run_calls :: "session \<Rightarrow> version_call list \<Rightarrow> session option" where
  "run_calls s [] = Some s"
| "run_calls s (c # cs) =
     (case call_create s c of
        None \<Rightarrow> None
      | Some (s', outcome) \<Rightarrow> run_calls s' cs)"

text \<open>
  The update of the first commit on one row: \<^verbatim>\<open>is_latest\<close> becomes false in the row of the
  given id.
\<close>

definition mark_superseded :: "uuid \<Rightarrow> document_node \<Rightarrow> document_node" where
  "mark_superseded i d = (if dn_id d = i then d\<lparr>dn_is_latest := False\<rparr> else d)"

text \<open>
  The keys drawn for a call are new: no graph node, document or edge has them yet.
\<close>

definition fresh_keys :: "session \<Rightarrow> version_call \<Rightarrow> bool" where
  "fresh_keys s c =
     (call_node_id c \<notin> gn_id ` set (graph_nodes s)
      \<and> call_doc_id c \<notin> dn_id ` set (documents s)
      \<and> call_node_id c \<notin> dn_graph_node_id ` set (documents s)
      \<and> call_edge_id c \<notin> ge_id ` set (graph_edges s))"

text \<open>
  No call of the sequence is made on a document that has been superseded: the document
  of each call, when there is one, has \<^verbatim>\<open>is_latest\<close> set in the rows the calls before it
  left; and the keys of each call are new.
\<close>

fun calls_on_latest :: "session \<Rightarrow> version_call list \<Rightarrow> bool" where
  "calls_on_latest s [] = True"
| "calls_on_latest s (c # cs) =
     ((case get_document s (call_document_id c) of None \<Rightarrow> True | Some d \<Rightarrow> dn_is_latest d)
      \<and> fresh_keys s c
      \<and> (case call_create s c of
            None \<Rightarrow> True
          | Some (s', outcome) \<Rightarrow> calls_on_latest s' cs))"

text \<open>
  The shape of the document rows of a chain grown from one root: distinct ids, each
  document but the first has the one before it as parent, the versions count from 1, and
  only the last document has \<^verbatim>\<open>is_latest\<close> set.
\<close>

definition linked :: "document_node list \<Rightarrow> bool" where
  "linked ds =
     (distinct (map dn_id ds)
      \<and> (\<forall>k<length ds. dn_parent_version_id (ds ! k)
            = (if k = 0 then None else Some (dn_id (ds ! (k - 1))))))"

definition stacked :: "document_node list \<Rightarrow> bool" where
  "stacked ds =
     (ds \<noteq> [] \<and> linked ds
      \<and> (\<forall>k<length ds. dn_version (ds ! k) = int k + 1
            \<and> dn_is_latest (ds ! k) = (Suc k = length ds)))"

text \<open>
  A root document with its graph node; the rows after one call on the root; and the rows
  after a second call on the root, which is then no longer the latest version.
\<close>

definition example_root :: document_node where
  "example_root = \<lparr>dn_id = ''d1'', dn_graph_node_id = ''g1'', dn_title = ''PRD'',
     dn_doc_type = ''PRD'', dn_content = ''first'', dn_content_format = ''markdown'',
     dn_version = 1, dn_parent_version_id = None, dn_is_latest = True,
     dn_is_generating = False, dn_generation_progress = 0, dn_generated_by_agent = None,
     dn_tags = [], dn_metadata = [], dn_project_id = ''p1''\<rparr>"

definition example_root_node :: graph_node where
  "example_root_node = \<lparr>gn_id = ''g1'', gn_node_type = ''document'',
     gn_layer = ''documentation'', gn_label = ''PRD'', gn_description = None,
     gn_position_x = 0, gn_position_y = 0, gn_position_z = 0, gn_width = 300,
     gn_height = 200, gn_color = None, gn_is_expanded = False, gn_parent_id = None,
     gn_project_id = Some ''p1'', gn_data = []\<rparr>"

definition example_single_root :: session where
  "example_single_root =
     \<lparr>documents = [example_root], graph_nodes = [example_root_node], graph_edges = []\<rparr>"

definition example_second :: document_node where
  "example_second = example_root\<lparr>dn_id := ''d2'', dn_graph_node_id := ''g2'',
     dn_content := ''second'', dn_version := 2, dn_parent_version_id := Some ''d1''\<rparr>"

definition example_second_node :: graph_node where
  "example_second_node = example_root_node\<lparr>gn_id := ''g2'', gn_label := ''PRD v2'',
     gn_position_y := - 20, gn_position_z := 1, gn_parent_id := Some ''g1'',
     gn_data := [(''version'', JInt 2), (''parent_version_id'', JString ''d1'')]\<rparr>"

definition example_second_edge :: graph_edge where
  "example_second_edge = \<lparr>ge_id = ''e2'', ge_edge_type = ''supersedes'', ge_source_id = ''g2'',
     ge_target_id = ''g1'', ge_label = Some ''v2'', ge_color = None, ge_is_animated = False,
     ge_data = [(''version_link'', JBool True)]\<rparr>"

definition example_two_versions :: session where
  "example_two_versions =
     \<lparr>documents = [example_root\<lparr>dn_is_latest := False\<rparr>, example_second],
      graph_nodes = [example_root_node, example_second_node],
      graph_edges = [example_second_edge]\<rparr>"

definition example_fork :: document_node where
  "example_fork = example_second\<lparr>dn_id := ''d3'', dn_graph_node_id := ''g3'',
     dn_content := ''third''\<rparr>"

definition example_forked :: session where
  "example_forked =
     \<lparr>documents = [example_root\<lparr>dn_is_latest := False\<rparr>, example_second, example_fork],
      graph_nodes = [example_root_node, example_second_node,
                     example_second_node\<lparr>gn_id := ''g3''\<rparr>],
      graph_edges = [example_second_edge,
                     example_second_edge\<lparr>ge_id := ''e3'', ge_source_id := ''g3''\<rparr>]\<rparr>"

definition example_call_first :: version_call where
  "example_call_first = \<lparr>call_document_id = ''d1'', call_content = ''second'',
     call_metadata = None, call_node_id = ''g2'', call_doc_id = ''d2'', call_edge_id = ''e2''\<rparr>"

definition example_call_on_root :: version_call where
  "example_call_on_root = \<lparr>call_document_id = ''d1'', call_content = ''third'',
     call_metadata = None, call_node_id = ''g3'', call_doc_id = ''d3'', call_edge_id = ''e3''\<rparr>"

definition example_call_on_latest :: version_call where
  "example_call_on_latest = \<lparr>call_document_id = ''d2'', call_content = ''third'',
     call_metadata = None, call_node_id = ''g3'', call_doc_id = ''d3'', call_edge_id = ''e3''\<rparr>"

section \<open>The similarity service and \<^verbatim>\<open>difflib.SequenceMatcher\<close>\<close>

text \<open>
  \<^verbatim>\<open>VersionDiffService.compute_similarity\<close> returns
  \<^verbatim>\<open>difflib.SequenceMatcher(None, content_a, content_b).ratio()\<close>. \<^verbatim>\<open>difflib\<close> belongs to the
  Python standard library; what follows is its \<^verbatim>\<open>SequenceMatcher\<close> as CPython's
  \<^verbatim>\<open>Lib/difflib.py\<close> defines it, for \<^verbatim>\<open>isjunk = None\<close> and \<^verbatim>\<open>autojunk = True\<close>, which is how
  the service calls it. The set \<^verbatim>\<open>bjunk\<close> is then empty, so the two loops of
  \<^verbatim>\<open>find_longest_match\<close> that extend a match over junk elements never run and are left
  out.

  \<^verbatim>\<open>__chain_b\<close> maps each element of \<open>b\<close> to the ascending list of its positions in \<open>b\<close>, then,
  when \<open>b\<close> has at least 200 elements, deletes the elements that occur more than
  \<open>len(b) // 100 + 1\<close> times. \<open>b2j_get b elt\<close> is \<^verbatim>\<open>b2j.get(elt, [])\<close> on the resulting dict.
\<close>

definition indices_of :: "'a list \<Rightarrow> 'a \<Rightarrow> nat list" where
  "indices_of b elt = filter (\<lambda>j. b ! j = elt) [0..<length b]"

definition bpopular :: "'a list \<Rightarrow> 'a \<Rightarrow> bool" where
  "bpopular b elt =
     (length b \<ge> 200 \<and> length (indices_of b elt) > length b div 100 + 1)"

definition b2j_get :: "'a list \<Rightarrow> 'a \<Rightarrow> nat list" where
  "b2j_get b elt = (if bpopular b elt then [] else indices_of b elt)"

text \<open>
  The inner loop of \<^verbatim>\<open>find_longest_match\<close>, for one position \<open>i\<close> of \<open>a\<close>:
  \<^verbatim>\<open>for j in b2j.get(a[i], nothing): if j < blo: continue; if j >= bhi: break;
  k = newj2len[j] = j2lenget(j-1, 0) + 1; if k > bestsize: besti, bestj, bestsize = i-k+1, j-k+1, k\<close>.
  For \<open>j = 0\<close> the key \<open>j - 1\<close> is \<open>-1\<close>, which no dict of the loop holds.
\<close>

fun inner_loop ::
  "nat \<Rightarrow> nat \<Rightarrow> nat \<Rightarrow> (nat \<rightharpoonup> nat) \<Rightarrow> nat list
     \<Rightarrow> (nat \<rightharpoonup> nat) \<times> nat \<times> nat \<times> nat \<Rightarrow> (nat \<rightharpoonup> nat) \<times> nat \<times> nat \<times> nat" where
  "inner_loop i blo bhi j2len [] st = st"
| "inner_loop i blo bhi j2len (j # js) (newj2len, besti, bestj, bestsize) =
     (if j < blo then inner_loop i blo bhi j2len js (newj2len, besti, bestj, bestsize)
      else if j \<ge> bhi then (newj2len, besti, bestj, bestsize)
      else
        (let k = (if j = 0 then 0 else case j2len (j - 1) of None \<Rightarrow> 0 | Some v \<Rightarrow> v) + 1;
             newj2len' = newj2len(j \<mapsto> k)
         in if k > bestsize
            then inner_loop i blo bhi j2len js (newj2len', Suc i - k, Suc j - k, k)
            else inner_loop i blo bhi j2len js (newj2len', besti, bestj, bestsize)))"

text \<open>The outer loop, \<^verbatim>\<open>for i in range(alo, ahi)\<close>, on the positions still to visit.\<close>

fun outer_loop ::
  "'a list \<Rightarrow> 'a list \<Rightarrow> nat \<Rightarrow> nat \<Rightarrow> nat list
     \<Rightarrow> (nat \<rightharpoonup> nat) \<times> nat \<times> nat \<times> nat \<Rightarrow> (nat \<rightharpoonup> nat) \<times> nat \<times> nat \<times> nat" where
  "outer_loop a b blo bhi [] st = st"
| "outer_loop a b blo bhi (i # rest) (j2len, besti, bestj, bestsize) =
     (case inner_loop i blo bhi j2len (b2j_get b (a ! i)) (Map.empty, besti, bestj, bestsize) of
        (newj2len, best) \<Rightarrow> outer_loop a b blo bhi rest (newj2len, best))"

text \<open>
  The two \<^verbatim>\<open>while\<close> loops that extend the match to the left and to the right over equal
  elements.
\<close>

function extend_left ::
  "'a list \<Rightarrow> 'a list \<Rightarrow> nat \<Rightarrow> nat \<Rightarrow> nat \<times> nat \<times> nat \<Rightarrow> nat \<times> nat \<times> nat" where
  "extend_left a b alo blo (besti, bestj, bestsize) =
     (if besti > alo \<and> bestj > blo \<and> a ! (besti - 1) = b ! (bestj - 1)
      then extend_left a b alo blo (besti - 1, bestj - 1, bestsize + 1)
      else (besti, bestj, bestsize))"
  by pat_completeness auto
termination
  by (relation "measure (\<lambda>(a, b, alo, blo, besti, bestj, bestsize). besti)") auto

function extend_right ::
  "'a list \<Rightarrow> 'a list \<Rightarrow> nat \<Rightarrow> nat \<Rightarrow> nat \<times> nat \<times> nat \<Rightarrow> nat \<times> nat \<times> nat" where
  "extend_right a b ahi bhi (besti, bestj, bestsize) =
     (if besti + bestsize < ahi \<and> bestj + bestsize < bhi
         \<and> a ! (besti + bestsize) = b ! (bestj + bestsize)
      then extend_right a b ahi bhi (besti, bestj, bestsize + 1)
      else (besti, bestj, bestsize))"
  by pat_completeness auto
termination
  by (relation "measure (\<lambda>(a, b, ahi, bhi, besti, bestj, bestsize). ahi - (besti + bestsize))")
     auto

declare extend_left.simps [simp del] extend_right.simps [simp del]

definition find_longest_match ::
  "'a list \<Rightarrow> 'a list \<Rightarrow> nat \<Rightarrow> nat \<Rightarrow> nat \<Rightarrow> nat \<Rightarrow> nat \<times> nat \<times> nat" where
  "find_longest_match a b alo ahi blo bhi =
     (case outer_loop a b blo bhi [alo..<ahi] (Map.empty, alo, blo, 0) of
        (j2len, best) \<Rightarrow> extend_right a b ahi bhi (extend_left a b alo blo best))"

text \<open>
  The \<^verbatim>\<open>while queue:\<close> loop of \<^verbatim>\<open>get_matching_blocks\<close>. \<^verbatim>\<open>queue.pop()\<close> takes the element
  appended last: the queue is kept with that element at the head. \<open>None\<close> stands for a
  loop that does not end.
\<close>

partial_function (option) matching_loop ::
  "'a list \<Rightarrow> 'a list \<Rightarrow> (nat \<times> nat \<times> nat \<times> nat) list \<Rightarrow> (nat \<times> nat \<times> nat) list
     \<Rightarrow> (nat \<times> nat \<times> nat) list option" where
  "matching_loop a b queue matching_blocks =
     (case queue of
        [] \<Rightarrow> Some matching_blocks
      | (alo, ahi, blo, bhi) # rest \<Rightarrow>
          (case find_longest_match a b alo ahi blo bhi of
             (i, j, k) \<Rightarrow>
               if k \<noteq> 0 then
                 matching_loop a b
                   ((if i + k < ahi \<and> j + k < bhi then [(i + k, ahi, j + k, bhi)] else [])
                    @ (if alo < i \<and> blo < j then [(alo, i, blo, j)] else [])
                    @ rest)
                   (matching_blocks @ [(i, j, k)])
               else matching_loop a b rest matching_blocks))"

declare matching_loop.simps [code]

text \<open>
  The loop that joins adjacent blocks, after \<^verbatim>\<open>matching_blocks.sort()\<close>; then the sentinel
  \<open>(la, lb, 0)\<close> is appended.
\<close>

fun join_adjacent ::
  "nat \<times> nat \<times> nat \<Rightarrow> (nat \<times> nat \<times> nat) list \<Rightarrow> (nat \<times> nat \<times> nat) list
     \<Rightarrow> (nat \<times> nat \<times> nat) list" where
  "join_adjacent (i1, j1, k1) [] non_adjacent =
     (if k1 \<noteq> 0 then non_adjacent @ [(i1, j1, k1)] else non_adjacent)"
| "join_adjacent (i1, j1, k1) ((i2, j2, k2) # rest) non_adjacent =
     (if i1 + k1 = i2 \<and> j1 + k1 = j2 then join_adjacent (i1, j1, k1 + k2) rest non_adjacent
      else join_adjacent (i2, j2, k2) rest
             (if k1 \<noteq> 0 then non_adjacent @ [(i1, j1, k1)] else non_adjacent))"

definition get_matching_blocks :: "'a list \<Rightarrow> 'a list \<Rightarrow> (nat \<times> nat \<times> nat) list option" where
  "get_matching_blocks a b =
     (case matching_loop a b [(0, length a, 0, length b)] [] of
        None \<Rightarrow> None
      | Some matching_blocks \<Rightarrow>
          Some (join_adjacent (0, 0, 0) (sort matching_blocks) [] @ [(length a, length b, 0)]))"

text \<open>\<^verbatim>\<open>_calculate_ratio\<close> and \<^verbatim>\<open>ratio\<close>.\<close>

definition calculate_ratio :: "nat \<Rightarrow> nat \<Rightarrow> real" where
  "calculate_ratio matches len = (if len \<noteq> 0 then 2 * real matches / real len else 1)"

definition ratio :: "'a list \<Rightarrow> 'a list \<Rightarrow> real option" where
  "ratio a b =
     (case get_matching_blocks a b of
        None \<Rightarrow> None
      | Some blocks \<Rightarrow>
          Some (calculate_ratio (sum_list (map (\<lambda>(i, j, k). k) blocks)) (length a + length b)))"

definition compute_similarity :: "string \<Rightarrow> string \<Rightarrow> real option" where
  "compute_similarity content_a content_b = ratio content_a content_b"

text \<open>
  For the comparison of a sequence with itself: the number of consecutive elements ending
  at position \<open>m\<close> that \<^verbatim>\<open>__chain_b\<close> has kept, and the invariants of the two loops of
  \<^verbatim>\<open>find_longest_match\<close>. Within a row and between rows, the best match lies on the
  diagonal, it is at least as long as every such run seen so far, and no entry of the
  table is longer than the run ending at its position.
\<close>

fun unpopular_run :: "'a list \<Rightarrow> nat \<Rightarrow> nat" where
  "unpopular_run x 0 = (if bpopular x (x ! 0) then 0 else 1)"
| "unpopular_run x (Suc m) = (if bpopular x (x ! Suc m) then 0 else Suc (unpopular_run x m))"

text \<open>The value \<^verbatim>\<open>j2lenget(j-1, 0)\<close> of the inner loop.\<close>

definition j2len_before :: "(nat \<rightharpoonup> nat) \<Rightarrow> nat \<Rightarrow> nat" where
  "j2len_before j2len j = (if j = 0 then 0 else case j2len (j - 1) of None \<Rightarrow> 0 | Some v \<Rightarrow> v)"

definition row_inv :: "'a list \<Rightarrow> nat \<Rightarrow> bool \<Rightarrow> (nat \<rightharpoonup> nat) \<times> nat \<times> nat \<times> nat \<Rightarrow> bool" where
  "row_inv x i seen st =
     (case st of (newj2len, besti, bestj, bestsize) \<Rightarrow>
        besti = bestj \<and> besti + bestsize \<le> Suc i
        \<and> (\<forall>m<i. unpopular_run x m \<le> bestsize)
        \<and> (\<forall>j k. newj2len j = Some k \<longrightarrow> 1 \<le> k \<and> k \<le> unpopular_run x j \<and> k \<le> unpopular_run x i)
        \<and> (seen \<longrightarrow> newj2len i = Some (unpopular_run x i) \<and> unpopular_run x i \<le> bestsize))"

definition table_inv :: "'a list \<Rightarrow> nat \<Rightarrow> (nat \<rightharpoonup> nat) \<times> nat \<times> nat \<times> nat \<Rightarrow> bool" where
  "table_inv x i st =
     (case st of (j2len, besti, bestj, bestsize) \<Rightarrow>
        besti = bestj \<and> besti + bestsize \<le> i
        \<and> (\<forall>m<i. unpopular_run x m \<le> bestsize)
        \<and> (\<forall>j k. j2len j = Some k \<longrightarrow>
              0 < i \<and> 1 \<le> k \<and> k \<le> unpopular_run x j \<and> k \<le> unpopular_run x (i - 1))
        \<and> (0 < i \<and> \<not> bpopular x (x ! (i - 1)) \<longrightarrow> j2len (i - 1) = Some (unpopular_run x (i - 1))))"
section \<open>Properties of the dependency waves\<close>

lemma list_remove_eq:
  "list_remove x xs = (if x \<in> set xs then Some (remove1 x xs) else None)"
  by (induction xs) auto

lemma place_wave_ok:
  "mset w \<subseteq># mset r \<Longrightarrow>
   \<exists>r'. place_wave w (r, g) = Some (r', g \<union> doc_type ` set w) \<and> mset r' = mset r - mset w"
proof (induction w arbitrary: r g)
  case Nil
  then show ?case by simp
next
  case (Cons t w)
  from Cons.prems have t_in: "t \<in> set r"
    by (metis insert_subset_eq_iff mset.simps(2) set_mset_mset)
  from Cons.prems have "mset w \<subseteq># mset (remove1 t r)"
    by (simp add: insert_subset_eq_iff)
  from Cons.IH[OF this, of "insert (doc_type t) g"]
  obtain r' where "place_wave w (remove1 t r, insert (doc_type t) g)
      = Some (r', insert (doc_type t) g \<union> doc_type ` set w)"
    and "mset r' = mset (remove1 t r) - mset w" by blast
  with t_in show ?case
    by (simp add: list_remove_eq)
qed

lemma select_wave_sub: "mset (select_wave r g) \<subseteq># mset r"
  by (simp add: select_wave_def Let_def)



text \<open>
  With no cycle and no dependency outside the list, some remaining template always has all
  its dependencies among the doc types already placed, so the fallback is never taken.
\<close>

lemma exists_satisfied:
  assumes ac: "acyclic (dep_rel ts)"
    and closed: "\<forall>t\<in>set ts. set (dependencies t) \<subseteq> doc_type ` set ts"
    and cover: "mset (concat waves) + mset r = mset ts"
    and ne: "r \<noteq> []"
  shows "\<exists>t\<in>set r. satisfied (doc_type ` set (concat waves)) t"
proof -
  have fin: "finite (dep_rel ts)" by (simp add: dep_rel_def)
  from finite_acyclic_wf[OF fin ac] have wf: "wf (dep_rel ts)" .
  have sets: "set ts = set (concat waves) \<union> set r"
    using cover by (metis set_append mset_append set_mset_mset)
  from ne obtain t0 where "t0 \<in> set r" by (cases r) auto
  then have "doc_type t0 \<in> doc_type ` set r" by simp
  from wfE_min[OF wf this]
  obtain z where z: "z \<in> doc_type ` set r"
    and zmin: "\<And>y. (y, z) \<in> dep_rel ts \<Longrightarrow> y \<notin> doc_type ` set r" by blast
  from z obtain t where t: "t \<in> set r" "z = doc_type t" by blast
  have "d \<in> doc_type ` set (concat waves)" if d: "d \<in> set (dependencies t)" for d
  proof -
    have tin: "t \<in> set ts" using t(1) sets by blast
    then have "(d, z) \<in> dep_rel ts"
      using d t(2) by (force simp: dep_rel_def)
    then have "d \<notin> doc_type ` set r" by (rule zmin)
    moreover have "d \<in> doc_type ` set ts" using closed tin d by blast
    ultimately show ?thesis using sets by blast
  qed
  then have "satisfied (doc_type ` set (concat waves)) t"
    by (simp add: satisfied_def list_all_iff)
  with t(1) show ?thesis by blast
qed

lemma deps_respected_snoc:
  assumes "deps_respected waves"
    and "\<forall>t\<in>set w. satisfied (doc_type ` set (concat waves)) t"
  shows "deps_respected (waves @ [w])"
  unfolding deps_respected_def
proof (intro allI impI ballI)
  fix i t d
  assume i: "i < length (waves @ [w])" and t: "t \<in> set ((waves @ [w]) ! i)"
    and d: "d \<in> set (dependencies t)"
  show "\<exists>j<i. d \<in> doc_type ` set ((waves @ [w]) ! j)"
  proof (cases "i < length waves")
    case True
    with t have "t \<in> set (waves ! i)" by (simp add: nth_append)
    with assms(1) True d have "\<exists>j<i. d \<in> doc_type ` set (waves ! j)"
      unfolding deps_respected_def by blast
    then obtain j where "j < i" "d \<in> doc_type ` set (waves ! j)" by blast
    with True show ?thesis by (auto simp: nth_append intro!: exI[of _ j])
  next
    case False
    with i have ieq: "i = length waves" by simp
    with t have "t \<in> set w" by simp
    with assms(2) d have "d \<in> doc_type ` set (concat waves)"
      by (auto simp: satisfied_def list_all_iff)
    then obtain u wv where "wv \<in> set waves" "u \<in> set wv" "d = doc_type u" by auto
    then obtain j where "j < length waves" "waves ! j = wv"
      by (auto simp: in_set_conv_nth)
    with \<open>u \<in> set wv\<close> \<open>d = doc_type u\<close> ieq show ?thesis
      by (auto simp: nth_append intro!: exI[of _ j])
  qed
qed

lemma build_loop_respects:
  assumes ac: "acyclic (dep_rel ts)"
    and closed: "\<forall>t\<in>set ts. set (dependencies t) \<subseteq> doc_type ` set ts"
  shows "mset (concat waves) + mset r = mset ts \<Longrightarrow> g = doc_type ` set (concat waves)
     \<Longrightarrow> deps_respected waves
     \<Longrightarrow> \<exists>ws. build_loop r g waves = Some ws \<and> deps_respected ws \<and> mset (concat ws) = mset ts"
proof (induction r g waves rule: build_loop.induct)
  case (1 r g waves)
  show ?case
  proof (cases "r = []")
    case True
    with "1.prems" show ?thesis by simp
  next
    case False
    let ?w = "select_wave r g"
    from place_wave_ok[OF select_wave_sub, of r g]
    obtain r' where pw: "place_wave ?w (r, g) = Some (r', g \<union> doc_type ` set ?w)"
      and ms: "mset r' = mset r - mset ?w" by blast
    from exists_satisfied[OF ac closed "1.prems"(1) False]
    have "filter (satisfied g) r \<noteq> []"
      using "1.prems"(2) by (auto simp: filter_empty_conv)
    then have w: "?w = filter (satisfied g) r"
      by (simp add: select_wave_def Let_def)
    then have sat: "\<forall>t\<in>set ?w. satisfied (doc_type ` set (concat waves)) t"
      using "1.prems"(2) by simp
    have full: "mset r' + mset ?w = mset r"
      using ms select_wave_sub[of r g] by simp
    have a: "mset (concat (waves @ [?w])) + mset r' = mset ts"
      using "1.prems"(1) full
      by (metis concat_append concat.simps append_Nil2 mset_append add.assoc add.commute)
    have b: "g \<union> doc_type ` set ?w = doc_type ` set (concat (waves @ [?w]))"
      using "1.prems"(2) by auto
    have c: "deps_respected (waves @ [?w])"
      using deps_respected_snoc[OF "1.prems"(3) sat] .
    from "1.IH"[OF False pw refl a b c]
    show ?thesis using False pw by simp
  qed
qed

text \<open>
  Claim C3, as amended. For every template list whose dependency relation is acyclic and
  whose every dependency is the doc type of a template of the list, the scheduler returns
  waves in which every input template appears exactly once (the concatenated waves are a
  permutation of the input), and every dependency of a template placed in wave \<open>i\<close> is the
  doc type of a template placed in an earlier wave \<open>j < i\<close> (so the templates of wave 0
  have no dependencies).
\<close>

theorem waves_respect_dependencies:
  assumes "acyclic (dep_rel templates)"
    and "\<forall>t\<in>set templates. set (dependencies t) \<subseteq> doc_type ` set templates"
  shows "\<exists>waves. build_dependency_graph templates = Some waves
           \<and> mset (concat waves) = mset templates
           \<and> (\<forall>i<length waves. \<forall>t\<in>set (waves ! i). \<forall>d\<in>set (dependencies t).
                 \<exists>j<i. d \<in> doc_type ` set (waves ! j))"
  using build_loop_respects[OF assms, of "[]" templates "{}"]
  by (auto simp: build_dependency_graph_def deps_respected_def)

theorem waves_respect_dependencies_witness:
  "acyclic (dep_rel [example_api_doc, example_technical_spec, example_prd])
   \<and> set (dependencies example_api_doc)
        \<subseteq> doc_type ` set [example_api_doc, example_technical_spec, example_prd]
   \<and> set (dependencies example_technical_spec)
        \<subseteq> doc_type ` set [example_api_doc, example_technical_spec, example_prd]
   \<and> set (dependencies example_prd)
        \<subseteq> doc_type ` set [example_api_doc, example_technical_spec, example_prd]
   \<and> (\<exists>waves. build_dependency_graph [example_api_doc, example_technical_spec, example_prd]
          = Some waves
        \<and> mset (concat waves) = mset [example_api_doc, example_technical_spec, example_prd]
        \<and> (\<forall>i<length waves. \<forall>t\<in>set (waves ! i). \<forall>d\<in>set (dependencies t).
              \<exists>j<i. d \<in> doc_type ` set (waves ! j)))"
proof -
  have ac: "acyclic (dep_rel [example_api_doc, example_technical_spec, example_prd])"
    by code_simp
  have cl: "\<forall>t\<in>set [example_api_doc, example_technical_spec, example_prd].
        set (dependencies t)
          \<subseteq> doc_type ` set [example_api_doc, example_technical_spec, example_prd]"
    by (simp add: example_api_doc_def example_technical_spec_def example_prd_def)
  from waves_respect_dependencies[OF ac cl] ac cl show ?thesis by simp
qed

text \<open>
  Claim C3 as stated fails when a dependency names a doc type that was not requested:
  the list \<open>[PRD, APIDoc]\<close> has no cycle, the scheduler places \<open>APIDoc\<close> in wave 1 through
  the fallback, and its dependency \<open>TechnicalSpec\<close> is the doc type of no template of wave 0.
\<close>

theorem waves_missing_dependency_counterexample:
  "acyclic (dep_rel [example_prd, example_api_doc])
   \<and> build_dependency_graph [example_prd, example_api_doc]
       = Some [[example_prd], [example_api_doc]]
   \<and> ''TechnicalSpec'' \<in> set (dependencies example_api_doc)
   \<and> ''TechnicalSpec'' \<notin> doc_type ` set [example_prd]"
proof -
  have "acyclic (dep_rel [example_prd, example_api_doc])" by code_simp
  moreover have "build_dependency_graph [example_prd, example_api_doc]
       = Some [[example_prd], [example_api_doc]]"
    by (simp add: build_dependency_graph_def select_wave_def satisfied_def
        example_prd_def example_api_doc_def)
  ultimately show ?thesis
    by (simp add: example_prd_def example_api_doc_def)
qed






section \<open>Properties of the connection manager, the stream events and the diff service\<close>

lemma send_loop_quiet:
  assumes "bucket_size (lookup m) = used"
  shows "\<exists>disconnected'.
     send_loop send_ok (\<lambda>c. None) lookup used message rest (m, sent, disconnected)
       = ((m, sent @ map (\<lambda>c. (c, message)) (filter send_ok rest), disconnected'), None)
     \<and> set disconnected' = set disconnected \<union> {c \<in> set rest. \<not> send_ok c}"
proof (induction rest arbitrary: sent disconnected)
  case Nil
  show ?case using assms by simp
next
  case (Cons c rest)
  show ?case
  proof (cases "send_ok c")
    case True
    from Cons[of "sent @ [(c, message)]" disconnected] True assms show ?thesis
      by (auto simp: other_task_def)
  next
    case False
    from Cons[of sent "set_add c disconnected"] False assms show ?thesis
      by (auto simp: other_task_def set_add_def)
  qed
qed

lemma clean_up_quiet:
  assumes get_store: "\<And>b m. lookup (store b m) = Some b"
    and store_store: "\<And>b b' m. store b (store b' m) = store b m"
  shows "lookup m = Some bucket \<Longrightarrow>
     clean_up lookup store disconnected m
       = (if disconnected = [] then m
          else store (filter (\<lambda>c. c \<notin> set disconnected) bucket) m, None)"
proof (induction disconnected arbitrary: m bucket)
  case Nil
  show ?case by simp
next
  case (Cons c rest)
  have f: "filter (\<lambda>x. x \<notin> set rest) (set_discard c bucket)
      = filter (\<lambda>x. x \<notin> set (c # rest)) bucket"
    by (induction bucket) (auto simp: set_discard_def)
  have step: "clean_up lookup store (c # rest) m
      = clean_up lookup store rest (store (set_discard c bucket) m)"
    using Cons.prems by simp
  have ih: "clean_up lookup store rest (store (set_discard c bucket) m)
       = (if rest = [] then store (set_discard c bucket) m
          else store (filter (\<lambda>x. x \<notin> set rest) (set_discard c bucket))
                 (store (set_discard c bucket) m), None)"
    by (rule Cons.IH) (rule get_store)
  have one: "set_discard c bucket = filter (\<lambda>x. x \<notin> set [c]) bucket"
    by (induction bucket) (auto simp: set_discard_def)
  show ?case
  proof (cases "rest = []")
    case True
    with step ih one show ?thesis by simp
  next
    case False
    with step ih show ?thesis by (simp only: f store_store) simp
  qed
qed

lemma broadcast_quiet:
  assumes get_store: "\<And>b m. lookup (store b m) = Some b"
    and store_store: "\<And>b b' m. store b (store b' m) = store b m"
    and store_same: "\<And>b m. lookup m = Some b \<Longrightarrow> store b m = m"
    and bucket: "lookup m = Some bucket"
  shows "broadcast send_ok (\<lambda>c. None) lookup store message m
     = (store (filter send_ok bucket) m, map (\<lambda>c. (c, message)) (filter send_ok bucket), None)"
proof -
  have "bucket_size (lookup m) = length bucket" using bucket by (simp add: bucket_size_def)
  from send_loop_quiet[of lookup m "length bucket" send_ok message bucket "[]" "[]", OF this]
  obtain disconnected where sl:
    "send_loop send_ok (\<lambda>c. None) lookup (length bucket) message bucket (m, [], [])
       = ((m, map (\<lambda>c. (c, message)) (filter send_ok bucket), disconnected), None)"
    and d: "set disconnected = {c \<in> set bucket. \<not> send_ok c}" by auto
  have keep: "filter (\<lambda>c. c \<notin> set disconnected) bucket = filter send_ok bucket"
    unfolding d by (rule filter_cong) auto
  have "clean_up lookup store disconnected m = (store (filter send_ok bucket) m, None)"
  proof (cases "disconnected = []")
    case True
    with keep have "filter send_ok bucket = bucket" by simp
    with True store_same[OF bucket] show ?thesis by simp
  next
    case False
    with clean_up_quiet[OF get_store store_store bucket, of disconnected] keep
    show ?thesis by simp
  qed
  with sl bucket show ?thesis by (simp add: broadcast_def)
qed

text \<open>
  When no other task acts during the sends, a broadcast does not raise: with no bucket
  or an empty bucket under the key it changes nothing and delivers nothing; otherwise it
  delivers to exactly the members whose send succeeds and leaves exactly those in the
  bucket.
\<close>

lemma broadcast_without_interference:
  "(project_connections m key = None \<or> project_connections m key = Some []
      \<longrightarrow> broadcast_to_project send_ok (\<lambda>c. None) key message m = (m, [], None))
   \<and> (document_connections m key = None \<or> document_connections m key = Some []
      \<longrightarrow> broadcast_to_document send_ok (\<lambda>c. None) key message m = (m, [], None))
   \<and> (project_connections m key = Some bucket
      \<longrightarrow> broadcast_to_project send_ok (\<lambda>c. None) key message m =
            (m\<lparr>project_connections := (project_connections m)(key \<mapsto> filter send_ok bucket)\<rparr>,
             map (\<lambda>c. (c, message)) (filter send_ok bucket), None))
   \<and> (document_connections m key = Some bucket
      \<longrightarrow> broadcast_to_document send_ok (\<lambda>c. None) key message m =
            (m\<lparr>document_connections := (document_connections m)(key \<mapsto> filter send_ok bucket)\<rparr>,
             map (\<lambda>c. (c, message)) (filter send_ok bucket), None))"
proof -
  have p: "broadcast_to_project send_ok (\<lambda>c. None) key message m =
            (m\<lparr>project_connections := (project_connections m)(key \<mapsto> filter send_ok b)\<rparr>,
             map (\<lambda>c. (c, message)) (filter send_ok b), None)"
    if "project_connections m key = Some b" for b
    unfolding broadcast_to_project_def
    by (rule broadcast_quiet) (simp_all add: that map_upd_triv)
  have d: "broadcast_to_document send_ok (\<lambda>c. None) key message m =
            (m\<lparr>document_connections := (document_connections m)(key \<mapsto> filter send_ok b)\<rparr>,
             map (\<lambda>c. (c, message)) (filter send_ok b), None)"
    if "document_connections m key = Some b" for b
    unfolding broadcast_to_document_def
    by (rule broadcast_quiet) (simp_all add: that map_upd_triv)
  have pn: "broadcast_to_project send_ok (\<lambda>c. None) key message m = (m, [], None)"
    if "project_connections m key = None" using that
    by (simp add: broadcast_to_project_def broadcast_def)
  have dn: "broadcast_to_document send_ok (\<lambda>c. None) key message m = (m, [], None)"
    if "document_connections m key = None" using that
    by (simp add: broadcast_to_document_def broadcast_def)
  have pe: "broadcast_to_project send_ok (\<lambda>c. None) key message m = (m, [], None)"
    if "project_connections m key = Some []" using p[OF that] that
    by (simp add: map_upd_triv)
  have de: "broadcast_to_document send_ok (\<lambda>c. None) key message m = (m, [], None)"
    if "document_connections m key = Some []" using d[OF that] that
    by (simp add: map_upd_triv)
  from p d pn dn pe de show ?thesis by blast
qed

text \<open>
  Claim C8 says that a send failure removes only the failing subscriber and that every
  other subscriber of the snapshot still receives the message. The broadcast iterates
  the bucket itself, takes no snapshot, and awaits inside the loop. In the project bucket
  \<open>7, 8, 9\<close>: when the send to 7 fails and the handler of 7 disconnects it while that send
  is awaited, the \<^verbatim>\<open>for\<close> statement raises \<^verbatim>\<open>RuntimeError\<close>; the call raises, and 8 and 9, which
  are still subscribed, receive nothing. When every send succeeds and connection 10
  subscribes to the project while the send to 7 is awaited, the call raises after the
  delivery to 7, and 8 and 9 receive nothing. \<^verbatim>\<open>broadcast_to_document\<close> does the same.
\<close>

theorem broadcast_raises_when_bucket_changes:
  "broadcast_to_project (\<lambda>c. c \<noteq> 7)
     (\<lambda>c. if c = 7 then Some (Disconnects 7 ''project'' (Some ''p1'')) else None)
     ''p1'' ''msg'' example_manager
   = (example_manager\<lparr>project_connections := [''p1'' \<mapsto> [8, 9]]\<rparr>, [], Some RuntimeError)
   \<and> broadcast_to_project (\<lambda>c. True)
     (\<lambda>c. if c = 7 then Some (Connects 10 ''project'' (Some ''p1'')) else None)
     ''p1'' ''msg'' example_manager
   = (example_manager\<lparr>project_connections := [''p1'' \<mapsto> [7, 8, 9, 10]]\<rparr>, [(7, ''msg'')],
      Some RuntimeError)
   \<and> broadcast_to_document (\<lambda>c. c \<noteq> 4)
     (\<lambda>c. if c = 4 then Some (Disconnects 4 ''document'' (Some ''d1'')) else None)
     ''d1'' ''msg'' example_manager
   = (example_manager\<lparr>document_connections := [''d1'' \<mapsto> [5]]\<rparr>, [], Some RuntimeError)
   \<and> project_connections example_manager ''p1'' = Some [7, 8, 9]
   \<and> document_connections example_manager ''d1'' = Some [4, 5]"
  by (simp add: broadcast_to_project_def broadcast_to_document_def broadcast_def
      example_manager_def other_task_def connect_def disconnect_def set_discard_def set_add_def
      bucket_size_def Let_def)

text \<open>
  Claim C10. A \<^verbatim>\<open>content_chunk\<close> event built with the empty string as chunk has the
  \<^verbatim>\<open>document_id\<close> and \<^verbatim>\<open>progress\<close> keys in its data and no \<^verbatim>\<open>content_chunk\<close> key; the
  \<^verbatim>\<open>content_chunk\<close> key is present exactly when the chunk is a non-empty string, and
  then holds that string.
\<close>

theorem content_chunk_key_iff_nonempty:
  "map_of (data (DocumentStreamEvent document_id ''content_chunk'' (Some []) progress metadata))
       ''content_chunk'' = None
   \<and> map_of (data (DocumentStreamEvent document_id ''content_chunk'' (Some []) progress metadata))
       ''document_id'' = Some (JString document_id)
   \<and> map_of (data (DocumentStreamEvent document_id ''content_chunk'' (Some []) progress metadata))
       ''progress'' = Some (JFloat progress)
   \<and> (map_of (data (DocumentStreamEvent document_id ''content_chunk'' chunk progress metadata))
       ''content_chunk'' \<noteq> None) = (\<exists>c. chunk = Some c \<and> c \<noteq> [])
   \<and> (map_of (data (DocumentStreamEvent document_id ''content_chunk'' (Some (x # xs)) progress
         metadata)) ''content_chunk'' = Some (JString (x # xs)))"
  by (cases chunk; cases metadata)
     (auto simp: DocumentStreamEvent_def Let_def dict_set_def update_conv')

lemma stream_chunks_shape:
  "length (stream_chunks document_id n chunks) = length chunks
   \<and> list_all (\<lambda>e. event_type e = ''content_chunk'') (stream_chunks document_id n chunks)"
  by (induction chunks arbitrary: n) (auto simp: Let_def DocumentStreamEvent_def)

text \<open>
  Claim C7. The events of \<^verbatim>\<open>document_stream_generator\<close> are: first a \<^verbatim>\<open>start\<close> event with
  progress 0, then one \<^verbatim>\<open>content_chunk\<close> event for each chunk of the content generator,
  then one last event, which is \<^verbatim>\<open>complete\<close> with progress 1 when the content generator
  is exhausted and \<^verbatim>\<open>error\<close> with the message under \<^verbatim>\<open>metadata.error\<close> when it raised.
  Nothing follows that last event, and no earlier event is terminal.
\<close>

theorem document_stream_order:
  "\<exists>start chunk_events terminal.
     document_stream_generator document_id (chunks, ending) = start # chunk_events @ [terminal]
     \<and> event_type start = ''start''
     \<and> map_of (data start) ''progress'' = Some (JFloat 0)
     \<and> length chunk_events = length chunks
     \<and> list_all (\<lambda>e. event_type e = ''content_chunk'') chunk_events
     \<and> (ending = Exhausted \<and> event_type terminal = ''complete''
          \<and> map_of (data terminal) ''progress'' = Some (JFloat 1)
        \<or> (\<exists>msg. ending = Raised msg \<and> event_type terminal = ''error''
             \<and> map_of (data terminal) ''metadata'' = Some (JObject [(''error'', JString msg)])))"
proof -
  let ?start = "DocumentStreamEvent document_id ''start'' None 0 None"
  let ?mid = "stream_chunks document_id 0 chunks"
  let ?last = "case ending of
             Exhausted \<Rightarrow> DocumentStreamEvent document_id ''complete'' None 1 None
           | Raised msg \<Rightarrow>
               DocumentStreamEvent document_id ''error'' None 0
                 (Some [(''error'', JString msg)])"
  have "document_stream_generator document_id (chunks, ending) = ?start # ?mid @ [?last]"
    by (simp add: document_stream_generator_def)
  moreover have "event_type ?start = ''start''"
    and "map_of (data ?start) ''progress'' = Some (JFloat 0)"
    by (simp_all add: DocumentStreamEvent_def)
  moreover have "length ?mid = length chunks"
    and "list_all (\<lambda>e. event_type e = ''content_chunk'') ?mid"
    using stream_chunks_shape[of document_id 0 chunks] by simp_all
  moreover have "ending = Exhausted \<and> event_type ?last = ''complete''
          \<and> map_of (data ?last) ''progress'' = Some (JFloat 1)
        \<or> (\<exists>msg. ending = Raised msg \<and> event_type ?last = ''error''
             \<and> map_of (data ?last) ''metadata'' = Some (JObject [(''error'', JString msg)]))"
    by (cases ending)
       (simp_all add: DocumentStreamEvent_def dict_set_def update_conv')
  ultimately show ?thesis by blast
qed

text \<open>
  For a template of non-zero size the generation loop never raises, and the message of
  the \<open>k\<close>-th chunk carries the length accumulated so far divided by the template's size.
\<close>

lemma generation_loop_messages:
  assumes "estimated_tokens template \<noteq> 0"
  shows "generation_loop document_id template chunks (full_content, broadcasts) =
     Inr (full_content @ concat chunks,
          broadcasts @ map (\<lambda>k. content_chunk_message document_id (chunks ! k)
              (real (length (full_content @ concat (take (Suc k) chunks)))
                 / real_of_int (estimated_tokens template)))
            [0..<length chunks])"
proof (induction chunks arbitrary: full_content broadcasts)
  case Nil
  show ?case by simp
next
  case (Cons chunk rest)
  have "map (\<lambda>k. content_chunk_message document_id ((chunk # rest) ! k)
              (real (length (full_content @ concat (take (Suc k) (chunk # rest))))
                 / real_of_int (estimated_tokens template)))
            [0..<length (chunk # rest)]
      = content_chunk_message document_id chunk
              (real (length (full_content @ chunk)) / real_of_int (estimated_tokens template))
        # map (\<lambda>k. content_chunk_message document_id (rest ! k)
              (real (length ((full_content @ chunk) @ concat (take (Suc k) rest)))
                 / real_of_int (estimated_tokens template)))
            [0..<length rest]"
    by (simp add: upt_conv_Cons map_Suc_upt[symmetric] o_def del: upt_Suc)
  with Cons[of "full_content @ chunk"] assms show ?case
    by (simp add: Let_def)
qed

text \<open>
  Claim C5 says that the progress of a content-chunk message is
  \<open>min (accumulated_length / estimated_size) 1\<close> and never exceeds 1. The loop of
  \<^verbatim>\<open>_generate_single_document\<close> sends the quotient without the \<^verbatim>\<open>min\<close>
  (\<open>generation_loop_messages\<close>): for the
  \<^verbatim>\<open>Architecture\<close> template (size 2000) and 2001 accumulated characters the message
  carries progress 2001/2000.
\<close>

theorem generation_progress_exceeds_one:
  "generation_loop ''doc-1'' example_architecture [replicate 2001 (CHR ''x'')] ([], [])
     = Inr (replicate 2001 (CHR ''x''),
            [content_chunk_message ''doc-1'' (replicate 2001 (CHR ''x'')) (2001 / 2000)])
   \<and> message_progress (content_chunk_message ''doc-1'' (replicate 2001 (CHR ''x'')) (2001 / 2000))
       = Some (JFloat (2001 / 2000))
   \<and> (2001 / 2000 :: real) > 1
   \<and> (2001 / 2000 :: real) \<noteq> min (2001 / 2000) 1"
  by (simp add: example_architecture_def message_progress_def content_chunk_message_def Let_def)

lemma compute_diff_counts:
  "compute_diff unified_diff content_a content_b =
     \<lparr>diff_lines = unified_diff (splitlines content_a) (splitlines content_b),
      added_lines = 0, removed_lines = 0\<rparr>"
  by (simp add: compute_diff_def gen_list_def gen_count_def)

text \<open>
  Claim C6 says that the added and removed counts of \<^verbatim>\<open>compute_diff\<close> are those of the
  unified diff. \<^verbatim>\<open>list(diff)\<close> exhausts the generator before the two counts are taken, so
  the diff lines are those of the library and both counts are 0, for every input and
  whatever the library yields. For the contents \<^verbatim>\<open>a\<close> and \<^verbatim>\<open>b\<close>, whose unified diff
  is the five lines given here, the result has counts 0 and 0 while two of its diff lines
  start with \<^verbatim>\<open>+\<close>, the \<^verbatim>\<open>+++\<close> header and the added line \<^verbatim>\<open>+b\<close>.
\<close>

theorem compute_diff_counts_are_zero:
  "diff_lines (compute_diff unified_diff content_a content_b)
     = unified_diff (splitlines content_a) (splitlines content_b)
   \<and> added_lines (compute_diff unified_diff content_a content_b) = 0
   \<and> removed_lines (compute_diff unified_diff content_a content_b) = 0
   \<and> compute_diff (\<lambda>a b. [''--- '', ''+++ '', ''@@ -1 +1 @@'', ''-a'', ''+b'']) ''a'' ''b''
       = \<lparr>diff_lines = [''--- '', ''+++ '', ''@@ -1 +1 @@'', ''-a'', ''+b''],
          added_lines = 0, removed_lines = 0\<rparr>
   \<and> length (filter (\<lambda>line. startswith line ''+'')
        (diff_lines (compute_diff (\<lambda>a b. [''--- '', ''+++ '', ''@@ -1 +1 @@'', ''-a'', ''+b''])
           ''a'' ''b''))) = 2"
  by (simp add: compute_diff_counts startswith_def)

section \<open>Properties of the version manager\<close>

lemma mark_superseded_fields [simp]:
  "dn_id (mark_superseded i d) = dn_id d"
  "dn_parent_version_id (mark_superseded i d) = dn_parent_version_id d"
  "dn_version (mark_superseded i d) = dn_version d"
  "dn_graph_node_id (mark_superseded i d) = dn_graph_node_id d"
  by (simp_all add: mark_superseded_def)

lemma find_map_same_key:
  assumes "\<And>x. key (f x) = key x"
  shows "find (\<lambda>x. key x = i) (map f xs) = map_option f (find (\<lambda>x. key x = i) xs)"
  by (induction xs) (simp_all add: assms)

lemma find_key: "find (\<lambda>x. key x = i) xs = Some y \<Longrightarrow> key y = i \<and> y \<in> set xs"
  by (induction xs) (auto split: if_splits)

lemma get_document_pending:
  "get_document (s\<lparr>documents := map (mark_superseded i) (documents s)\<rparr>) p
     = map_option (mark_superseded i) (get_document s p)"
  by (simp add: get_document_def find_map_same_key)

lemma get_root_id_pending:
  assumes "get_root_id s x = Some r"
  shows "get_root_id (s\<lparr>documents := map (mark_superseded i) (documents s)\<rparr>) (mark_superseded i x)
     = Some r"
proof (rule get_root_id.raw_induct[where P = "\<lambda>s x r.
    get_root_id (s\<lparr>documents := map (mark_superseded i) (documents s)\<rparr>) (mark_superseded i x)
      = Some r", OF _ assms])
  fix walk :: "session \<Rightarrow> document_node \<Rightarrow> uuid option"
    and s :: session and current :: document_node and r :: uuid
  assume IH: "\<And>s' c y. walk s' c = Some y \<Longrightarrow>
      get_root_id (s'\<lparr>documents := map (mark_superseded i) (documents s')\<rparr>) (mark_superseded i c)
        = Some y"
    and step: "(case dn_parent_version_id current of
        None \<Rightarrow> Some (dn_id current)
      | Some parent_id \<Rightarrow>
          (case get_document s parent_id of
             None \<Rightarrow> Some (dn_id current)
           | Some parent \<Rightarrow> walk s parent)) = Some r"
  show "get_root_id (s\<lparr>documents := map (mark_superseded i) (documents s)\<rparr>)
      (mark_superseded i current) = Some r"
  proof (cases "dn_parent_version_id current")
    case None
    with step show ?thesis by (subst get_root_id.simps) simp
  next
    case (Some p)
    note parent = this
    show ?thesis
    proof (cases "get_document s p")
      case None
      with parent step show ?thesis
        by (subst get_root_id.simps) (simp add: get_document_pending)
    next
      case (Some parent_doc)
      with parent step have "walk s parent_doc = Some r" by simp
      from IH[OF this] Some parent show ?thesis
        by (subst get_root_id.simps) (simp add: get_document_pending)
    qed
  qed
qed

lemma pending_eq:
  "(\<lambda>d. if dn_id d = i then d\<lparr>dn_is_latest := False\<rparr> else d) = mark_superseded i"
  by (auto simp: mark_superseded_def)

lemma create_not_found:
  assumes "get_document s document_id = None"
  shows "create_new_version s document_id new_content metadata new_node_id new_doc_id new_edge_id
        = Some (s, Inl (ValueError (''Document '' @ document_id @ '' not found'')))"
  using assms by (simp add: create_new_version_def)

lemma create_pending_walk:
  assumes doc: "get_document s document_id = Some doc"
    and walk: "get_root_id s doc \<noteq> None"
  shows "dn_id doc = document_id"
    and "\<exists>r. get_root_id (s\<lparr>documents := map (mark_superseded document_id) (documents s)\<rparr>)
      (doc\<lparr>dn_is_latest := False\<rparr>) = Some r"
proof -
  show idd: "dn_id doc = document_id"
    using doc find_key[of dn_id document_id "documents s" doc] by (simp add: get_document_def)
  from walk obtain r where r: "get_root_id s doc = Some r" by auto
  have cur: "doc\<lparr>dn_is_latest := False\<rparr> = mark_superseded document_id doc"
    by (simp add: mark_superseded_def idd)
  show "\<exists>r. get_root_id (s\<lparr>documents := map (mark_superseded document_id) (documents s)\<rparr>)
      (doc\<lparr>dn_is_latest := False\<rparr>) = Some r"
    unfolding cur using get_root_id_pending[OF r] by blast
qed

lemma create_node_missing:
  assumes doc: "get_document s document_id = Some doc"
    and walk: "get_root_id s doc \<noteq> None"
    and node: "get_graph_node s (dn_graph_node_id doc) = None"
  shows "create_new_version s document_id new_content metadata new_node_id new_doc_id new_edge_id
        = Some (s, Inl (ValueError (''Graph node '' @ dn_graph_node_id doc @ '' not found'')))"
proof -
  from create_pending_walk[OF doc walk] obtain r where idd: "dn_id doc = document_id"
    and w: "get_root_id (s\<lparr>documents := map (mark_superseded document_id) (documents s)\<rparr>)
      (doc\<lparr>dn_is_latest := False\<rparr>) = Some r" by blast
  from node have "get_graph_node (s\<lparr>documents := map (mark_superseded document_id) (documents s)\<rparr>)
      (dn_graph_node_id doc) = None"
    by (simp add: get_graph_node_def)
  with doc w idd show ?thesis
    by (simp add: create_new_version_def Let_def pending_eq)
qed

lemma create_success:
  assumes doc: "get_document s document_id = Some doc"
    and walk: "get_root_id s doc \<noteq> None"
    and node: "get_graph_node s (dn_graph_node_id doc) = Some node"
    and fresh: "new_node_id \<notin> gn_id ` set (graph_nodes s)"
      "new_doc_id \<notin> dn_id ` set (documents s)"
      "new_node_id \<notin> dn_graph_node_id ` set (documents s)"
      "new_edge_id \<notin> ge_id ` set (graph_edges s)"
  shows "\<exists>s' new_doc.
         create_new_version s document_id new_content metadata new_node_id new_doc_id new_edge_id
           = Some (s', Inr new_doc)
         \<and> dn_id doc = document_id
         \<and> dn_id new_doc = new_doc_id
         \<and> dn_version new_doc = dn_version doc + 1
         \<and> dn_parent_version_id new_doc = Some (dn_id doc)
         \<and> dn_is_latest new_doc
         \<and> dn_content new_doc = new_content
         \<and> documents s' =
             map (\<lambda>d. if dn_id d = document_id then d\<lparr>dn_is_latest := False\<rparr> else d) (documents s)
             @ [new_doc]"
proof -
  from create_pending_walk[OF doc walk] obtain r where idd: "dn_id doc = document_id"
    and w: "get_root_id (s\<lparr>documents := map (mark_superseded document_id) (documents s)\<rparr>)
      (doc\<lparr>dn_is_latest := False\<rparr>) = Some r" by blast
  from node have n: "get_graph_node (s\<lparr>documents := map (mark_superseded document_id) (documents s)\<rparr>)
      (dn_graph_node_id doc) = Some node"
    by (simp add: get_graph_node_def)
  have ids: "dn_id ` mark_superseded document_id ` set (documents s) = dn_id ` set (documents s)"
    "dn_graph_node_id ` mark_superseded document_id ` set (documents s)
       = dn_graph_node_id ` set (documents s)"
    by (simp_all add: image_image)
  from doc w n idd ids fresh show ?thesis
    by (simp add: create_new_version_def Let_def pending_eq)
qed

text \<open>
  What \<^verbatim>\<open>create_new_version\<close> does with the id it is given. When no document has the
  id, it raises \<^verbatim>\<open>ValueError\<close> (not found) and changes nothing; so it does when the
  document's graph node is missing. When the document and its graph node exist, the root
  walk from the document ends and the three keys drawn are new, it returns a new document
  with \<open>version = doc.version + 1\<close>, \<open>parent_version_id = doc.id\<close>, \<open>is_latest\<close> set and
  the new content, where \<open>doc\<close> is the document of the given id, whether or not it is
  the latest member of its chain; in the committed rows \<open>is_latest\<close> is cleared in the
  row of that id, every other row is as before, and the new document is appended.
\<close>

lemma create_new_version_from_given_document:
  "(get_document s document_id = None \<longrightarrow>
      create_new_version s document_id new_content metadata new_node_id new_doc_id new_edge_id
        = Some (s, Inl (ValueError (''Document '' @ document_id @ '' not found''))))
   \<and> (get_document s document_id = Some doc \<and> get_root_id s doc \<noteq> None
        \<and> get_graph_node s (dn_graph_node_id doc) = None \<longrightarrow>
      create_new_version s document_id new_content metadata new_node_id new_doc_id new_edge_id
        = Some (s, Inl (ValueError (''Graph node '' @ dn_graph_node_id doc @ '' not found''))))
   \<and> (get_document s document_id = Some doc \<and> get_root_id s doc \<noteq> None
        \<and> get_graph_node s (dn_graph_node_id doc) = Some node
        \<and> new_node_id \<notin> gn_id ` set (graph_nodes s)
        \<and> new_doc_id \<notin> dn_id ` set (documents s)
        \<and> new_node_id \<notin> dn_graph_node_id ` set (documents s)
        \<and> new_edge_id \<notin> ge_id ` set (graph_edges s) \<longrightarrow>
      (\<exists>s' new_doc.
         create_new_version s document_id new_content metadata new_node_id new_doc_id new_edge_id
           = Some (s', Inr new_doc)
         \<and> dn_id doc = document_id
         \<and> dn_id new_doc = new_doc_id
         \<and> dn_version new_doc = dn_version doc + 1
         \<and> dn_parent_version_id new_doc = Some (dn_id doc)
         \<and> dn_is_latest new_doc
         \<and> dn_content new_doc = new_content
         \<and> documents s' =
             map (\<lambda>d. if dn_id d = document_id then d\<lparr>dn_is_latest := False\<rparr> else d) (documents s)
             @ [new_doc]))"
proof (intro conjI impI)
  assume "get_document s document_id = None"
  then show "create_new_version s document_id new_content metadata new_node_id new_doc_id new_edge_id
        = Some (s, Inl (ValueError (''Document '' @ document_id @ '' not found'')))"
    by (rule create_not_found)
next
  assume "get_document s document_id = Some doc \<and> get_root_id s doc \<noteq> None
        \<and> get_graph_node s (dn_graph_node_id doc) = None"
  then show "create_new_version s document_id new_content metadata new_node_id new_doc_id new_edge_id
        = Some (s, Inl (ValueError (''Graph node '' @ dn_graph_node_id doc @ '' not found'')))"
    by (simp add: create_node_missing)
next
  assume a: "get_document s document_id = Some doc \<and> get_root_id s doc \<noteq> None
        \<and> get_graph_node s (dn_graph_node_id doc) = Some node
        \<and> new_node_id \<notin> gn_id ` set (graph_nodes s)
        \<and> new_doc_id \<notin> dn_id ` set (documents s)
        \<and> new_node_id \<notin> dn_graph_node_id ` set (documents s)
        \<and> new_edge_id \<notin> ge_id ` set (graph_edges s)"
  then have "get_document s document_id = Some doc" "get_root_id s doc \<noteq> None"
    "get_graph_node s (dn_graph_node_id doc) = Some node"
    "new_node_id \<notin> gn_id ` set (graph_nodes s)"
    "new_doc_id \<notin> dn_id ` set (documents s)"
    "new_node_id \<notin> dn_graph_node_id ` set (documents s)"
    "new_edge_id \<notin> ge_id ` set (graph_edges s)" by simp_all
  then show "\<exists>s' new_doc.
         create_new_version s document_id new_content metadata new_node_id new_doc_id new_edge_id
           = Some (s', Inr new_doc)
         \<and> dn_id doc = document_id
         \<and> dn_id new_doc = new_doc_id
         \<and> dn_version new_doc = dn_version doc + 1
         \<and> dn_parent_version_id new_doc = Some (dn_id doc)
         \<and> dn_is_latest new_doc
         \<and> dn_content new_doc = new_content
         \<and> documents s' =
             map (\<lambda>d. if dn_id d = document_id then d\<lparr>dn_is_latest := False\<rparr> else d) (documents s)
             @ [new_doc]"
    by (rule create_success)
qed

lemma create_new_version_from_given_document_example:
  "get_document example_single_root ''d9'' = None
   \<and> create_new_version example_single_root ''d9'' ''second'' None ''g2'' ''d2'' ''e2''
       = Some (example_single_root, Inl (ValueError ''Document d9 not found''))
   \<and> get_document (example_single_root\<lparr>graph_nodes := []\<rparr>) ''d1'' = Some example_root
   \<and> get_root_id (example_single_root\<lparr>graph_nodes := []\<rparr>) example_root \<noteq> None
   \<and> get_graph_node (example_single_root\<lparr>graph_nodes := []\<rparr>) ''g1'' = None
   \<and> create_new_version (example_single_root\<lparr>graph_nodes := []\<rparr>) ''d1'' ''second'' None
         ''g2'' ''d2'' ''e2''
       = Some (example_single_root\<lparr>graph_nodes := []\<rparr>, Inl (ValueError ''Graph node g1 not found''))
   \<and> get_document example_single_root ''d1'' = Some example_root
   \<and> get_root_id example_single_root example_root \<noteq> None
   \<and> get_graph_node example_single_root ''g1'' = Some example_root_node
   \<and> ''g2'' \<notin> gn_id ` set (graph_nodes example_single_root)
   \<and> ''d2'' \<notin> dn_id ` set (documents example_single_root)
   \<and> ''g2'' \<notin> dn_graph_node_id ` set (documents example_single_root)
   \<and> ''e2'' \<notin> ge_id ` set (graph_edges example_single_root)
   \<and> (\<exists>s' new_doc.
         create_new_version example_single_root ''d1'' ''second'' None ''g2'' ''d2'' ''e2''
           = Some (s', Inr new_doc)
         \<and> dn_id new_doc = ''d2''
         \<and> dn_version new_doc = 2
         \<and> dn_parent_version_id new_doc = Some ''d1''
         \<and> dn_is_latest new_doc
         \<and> dn_content new_doc = ''second''
         \<and> documents s' = [example_root\<lparr>dn_is_latest := False\<rparr>, new_doc])"
proof -
  have a: "get_document example_single_root ''d9'' = None" by code_simp
  have b: "get_document (example_single_root\<lparr>graph_nodes := []\<rparr>) ''d1'' = Some example_root"
    "get_root_id (example_single_root\<lparr>graph_nodes := []\<rparr>) example_root \<noteq> None"
    "get_graph_node (example_single_root\<lparr>graph_nodes := []\<rparr>) ''g1'' = None"
    by code_simp+
  have c: "get_document example_single_root ''d1'' = Some example_root"
    "get_root_id example_single_root example_root \<noteq> None"
    "get_graph_node example_single_root ''g1'' = Some example_root_node"
    "''g2'' \<notin> gn_id ` set (graph_nodes example_single_root)"
    "''d2'' \<notin> dn_id ` set (documents example_single_root)"
    "''g2'' \<notin> dn_graph_node_id ` set (documents example_single_root)"
    "''e2'' \<notin> ge_id ` set (graph_edges example_single_root)"
    by code_simp+
  have g: "dn_graph_node_id example_root = ''g1''" "dn_version example_root = 1"
    "dn_id example_root = ''d1''"
    by (simp_all add: example_root_def)
  have m: "map (\<lambda>d. if dn_id d = ''d1'' then d\<lparr>dn_is_latest := False\<rparr> else d)
      (documents example_single_root) = [example_root\<lparr>dn_is_latest := False\<rparr>]"
    by (simp add: example_single_root_def g)
  from create_new_version_from_given_document[of example_single_root "''d9''" "''second''" None
      "''g2''" "''d2''" "''e2''" example_root example_root_node] a
  have r1: "create_new_version example_single_root ''d9'' ''second'' None ''g2'' ''d2'' ''e2''
       = Some (example_single_root, Inl (ValueError ''Document d9 not found''))" by simp
  from create_new_version_from_given_document[of "example_single_root\<lparr>graph_nodes := []\<rparr>"
      "''d1''" "''second''" None "''g2''" "''d2''" "''e2''" example_root example_root_node] b g
  have r2: "create_new_version (example_single_root\<lparr>graph_nodes := []\<rparr>) ''d1'' ''second'' None
         ''g2'' ''d2'' ''e2''
       = Some (example_single_root\<lparr>graph_nodes := []\<rparr>, Inl (ValueError ''Graph node g1 not found''))"
    by simp
  from create_new_version_from_given_document[of example_single_root "''d1''" "''second''" None
      "''g2''" "''d2''" "''e2''" example_root example_root_node] c g m
  have r3: "\<exists>s' new_doc.
         create_new_version example_single_root ''d1'' ''second'' None ''g2'' ''d2'' ''e2''
           = Some (s', Inr new_doc)
         \<and> dn_id new_doc = ''d2''
         \<and> dn_version new_doc = 2
         \<and> dn_parent_version_id new_doc = Some ''d1''
         \<and> dn_is_latest new_doc
         \<and> dn_content new_doc = ''second''
         \<and> documents s' = [example_root\<lparr>dn_is_latest := False\<rparr>, new_doc]"
    by simp
  from a b c r1 r2 r3 show ?thesis by simp
qed

text \<open>
  Claim C1 says that \<^verbatim>\<open>create_new_version\<close> resolves the current latest version of the
  chain of the given id, clears \<open>is_latest\<close> on that member and creates the new node with
  its version plus one and with it as parent. The code takes the document of the given
  id as the predecessor. In the chain \<open>d1, d2\<close>, whose latest member is \<open>d2\<close> with version
  2, a call on \<open>d1\<close> returns a document with version 2 (not 3) and parent \<open>d1\<close> (not \<open>d2\<close>);
  \<open>d2\<close> keeps \<open>is_latest\<close>, so two documents have it set, and the new graph node is placed at
  the \<open>z\<close> of the node of \<open>d2\<close> instead of on top of it.
\<close>

theorem create_new_version_on_superseded_document:
  "create_new_version example_two_versions ''d1'' ''third'' None ''g3'' ''d3'' ''e3''
     = Some (example_forked, Inr example_fork)
   \<and> chain example_two_versions ''d1'' = [example_root\<lparr>dn_is_latest := False\<rparr>, example_second]
   \<and> dn_is_latest example_second
   \<and> dn_version example_second = 2
   \<and> dn_id example_second = ''d2''
   \<and> dn_version example_fork = 2
   \<and> dn_parent_version_id example_fork = Some ''d1''
   \<and> get_document example_forked ''d2'' = Some example_second
   \<and> map dn_id (filter dn_is_latest (documents example_forked)) = [''d2'', ''d3'']
   \<and> map gn_id (graph_nodes example_forked) = [''g1'', ''g2'', ''g3'']
   \<and> map gn_position_z (graph_nodes example_forked) = [0, 1, 1]"
  by code_simp

lemma find_distinct_key:
  "distinct (map key xs) \<Longrightarrow> k < length xs \<Longrightarrow> find (\<lambda>x. key x = key (xs ! k)) xs = Some (xs ! k)"
proof (induction xs arbitrary: k)
  case Nil
  then show ?case by simp
next
  case (Cons x xs)
  show ?case
  proof (cases k)
    case 0
    then show ?thesis by simp
  next
    case (Suc j)
    with Cons.prems have j: "j < length xs" by simp
    then have "xs ! j \<in> set xs" by simp
    with Cons.prems(1) have "key x \<noteq> key (xs ! j)" by auto
    with Cons.IH[OF _ j] Cons.prems(1) Suc show ?thesis by simp
  qed
qed

lemma linked_root:
  assumes "linked (documents s)"
  shows "k < length (documents s) \<Longrightarrow> get_root_id s (documents s ! k) = Some (dn_id (documents s ! 0))"
proof (induction k)
  case 0
  with assms have "dn_parent_version_id (documents s ! 0) = None"
    by (simp add: linked_def)
  then show ?case by (subst get_root_id.simps) simp
next
  case (Suc k)
  then have k: "k < length (documents s)" by simp
  from assms Suc.prems have p: "dn_parent_version_id (documents s ! Suc k) = Some (dn_id (documents s ! k))"
    by (simp add: linked_def)
  from assms have "distinct (map dn_id (documents s))" by (simp add: linked_def)
  from find_distinct_key[OF this k]
  have g: "get_document s (dn_id (documents s ! k)) = Some (documents s ! k)"
    by (simp add: get_document_def)
  show ?case
    by (subst get_root_id.simps) (simp add: p g Suc.IH[OF k])
qed

lemma stacked_latest_is_last:
  assumes "stacked ds" "d \<in> set ds" "dn_is_latest d"
  shows "d = last ds"
proof -
  from assms(2) obtain k where k: "k < length ds" "ds ! k = d"
    by (auto simp: in_set_conv_nth)
  with assms(1,3) have "Suc k = length ds" by (auto simp: stacked_def)
  then have "k = length ds - 1" by simp
  with k assms(1) show ?thesis by (simp add: last_conv_nth stacked_def)
qed

lemma stacked_snoc:
  assumes st: "stacked ds"
    and fresh: "dn_id new \<notin> dn_id ` set ds"
    and ver: "dn_version new = dn_version (last ds) + 1"
    and par: "dn_parent_version_id new = Some (dn_id (last ds))"
    and lat: "dn_is_latest new"
  shows "stacked (map (mark_superseded (dn_id (last ds))) ds @ [new])"
proof -
  let ?i = "dn_id (last ds)"
  let ?ds' = "map (mark_superseded ?i) ds @ [new]"
  from st have ne: "ds \<noteq> []" and dist: "distinct (map dn_id ds)"
    and parent: "\<And>k. k < length ds \<Longrightarrow> dn_parent_version_id (ds ! k)
            = (if k = 0 then None else Some (dn_id (ds ! (k - 1))))"
    and version: "\<And>k. k < length ds \<Longrightarrow> dn_version (ds ! k) = int k + 1"
    and latest: "\<And>k. k < length ds \<Longrightarrow> dn_is_latest (ds ! k) = (Suc k = length ds)"
    by (simp_all add: stacked_def linked_def)
  from ne have len: "0 < length ds" by simp
  have last: "last ds = ds ! (length ds - 1)" using ne by (rule last_conv_nth)
  have ids: "map dn_id (map (mark_superseded ?i) ds) = map dn_id ds" by simp
  have d1: "distinct (map dn_id ?ds')"
    using dist fresh by (simp add: ids del: map_map)
  have old: "?ds' ! k = mark_superseded ?i (ds ! k)" if "k < length ds" for k
    using that by (simp add: nth_append)
  have new: "?ds' ! length ds = new" by (simp add: nth_append)
  have p: "dn_parent_version_id (?ds' ! k) = (if k = 0 then None else Some (dn_id (?ds' ! (k - 1))))"
    if k: "k < length ?ds'" for k
  proof (cases "k < length ds")
    case True
    then have "k - 1 < length ds" by simp
    with True show ?thesis by (simp add: old parent)
  next
    case False
    with k have keq: "k = length ds" by simp
    have "length ds - 1 < length ds" using len by simp
    from old[OF this] show ?thesis
      unfolding keq new using len by (simp add: par last)
  qed
  have v: "dn_version (?ds' ! k) = int k + 1 \<and> dn_is_latest (?ds' ! k) = (Suc k = length ?ds')"
    if k: "k < length ?ds'" for k
  proof (cases "k < length ds")
    case True
    have "dn_is_latest (mark_superseded ?i (ds ! k)) = False"
    proof (cases "dn_id (ds ! k) = ?i")
      case True
      then show ?thesis by (simp add: mark_superseded_def)
    next
      case False
      then have "k \<noteq> length ds - 1" using last by auto
      with True have "Suc k \<noteq> length ds" by simp
      with latest[OF True] False show ?thesis by (simp add: mark_superseded_def)
    qed
    with True show ?thesis by (simp add: old version)
  next
    case False
    with k have keq: "k = length ds" by simp
    have "length ds - 1 < length ds" using len by simp
    from version[OF this] have "dn_version (last ds) = int (length ds - 1) + 1"
      by (simp add: last)
    then show ?thesis
      unfolding keq new using len by (simp add: ver lat)
  qed
  show ?thesis
    unfolding stacked_def linked_def using d1 p v by blast
qed

lemma call_create_stacked:
  assumes st: "stacked (documents s)"
    and latest: "case get_document s (call_document_id c) of None \<Rightarrow> True | Some d \<Rightarrow> dn_is_latest d"
    and fresh: "fresh_keys s c"
  shows "\<exists>s' outcome. call_create s c = Some (s', outcome) \<and> stacked (documents s')
           \<and> dn_id (documents s' ! 0) = dn_id (documents s ! 0)"
proof (cases "get_document s (call_document_id c)")
  case None
  from create_not_found[OF this] st show ?thesis by (simp add: call_create_def)
next
  case (Some d)
  with latest have lat: "dn_is_latest d" by simp
  from Some have d_in: "d \<in> set (documents s)" and d_id: "dn_id d = call_document_id c"
    using find_key[of dn_id "call_document_id c" "documents s" d] by (simp_all add: get_document_def)
  from stacked_latest_is_last[OF st d_in lat] have d_last: "d = last (documents s)" .
  from st have lk: "linked (documents s)" and ne: "documents s \<noteq> []" by (simp_all add: stacked_def)
  from d_in obtain k where k: "k < length (documents s)" "documents s ! k = d"
    by (auto simp: in_set_conv_nth)
  from linked_root[OF lk k(1)] k(2) have walk: "get_root_id s d \<noteq> None" by simp
  show ?thesis
  proof (cases "get_graph_node s (dn_graph_node_id d)")
    case None
    from create_node_missing[OF Some walk None] st show ?thesis by (simp add: call_create_def)
  next
    case (Some node)
    from fresh have f: "call_node_id c \<notin> gn_id ` set (graph_nodes s)"
      "call_doc_id c \<notin> dn_id ` set (documents s)"
      "call_node_id c \<notin> dn_graph_node_id ` set (documents s)"
      "call_edge_id c \<notin> ge_id ` set (graph_edges s)" by (simp_all add: fresh_keys_def)
    from create_success[OF \<open>get_document s (call_document_id c) = Some d\<close> walk Some f,
        of "call_content c" "call_metadata c"]
    obtain s' new_doc where r:
      "call_create s c = Some (s', Inr new_doc)"
      "dn_id new_doc = call_doc_id c"
      "dn_version new_doc = dn_version d + 1"
      "dn_parent_version_id new_doc = Some (dn_id d)"
      "dn_is_latest new_doc"
      "documents s' = map (mark_superseded (call_document_id c)) (documents s) @ [new_doc]"
      by (auto simp: call_create_def pending_eq)
    have "stacked (map (mark_superseded (dn_id (last (documents s)))) (documents s) @ [new_doc])"
      using st f(2) r(2,3,4,5) d_last by (intro stacked_snoc) simp_all
    then have "stacked (documents s')" using r(6) d_id d_last by simp
    moreover have "dn_id (documents s' ! 0) = dn_id (documents s ! 0)"
      using ne r(6) by (cases "documents s") (simp_all add: nth_append)
    ultimately show ?thesis using r(1) by blast
  qed
qed

lemma run_calls_stacked:
  "stacked (documents s) \<Longrightarrow> calls_on_latest s calls \<Longrightarrow>
   \<exists>s'. run_calls s calls = Some s' \<and> stacked (documents s')
        \<and> dn_id (documents s' ! 0) = dn_id (documents s ! 0)"
proof (induction calls arbitrary: s)
  case Nil
  then show ?case by simp
next
  case (Cons c cs)
  from Cons.prems(2) have l: "case get_document s (call_document_id c) of
      None \<Rightarrow> True | Some d \<Rightarrow> dn_is_latest d" and f: "fresh_keys s c" by simp_all
  from call_create_stacked[OF Cons.prems(1) l f]
  obtain s1 outcome where s1: "call_create s c = Some (s1, outcome)" "stacked (documents s1)"
    "dn_id (documents s1 ! 0) = dn_id (documents s ! 0)" by blast
  with Cons.prems(2) have "calls_on_latest s1 cs" by simp
  from Cons.IH[OF s1(2) this] s1 show ?case by auto
qed

lemma stacked_chain:
  assumes "stacked (documents s)"
  shows "chain s (dn_id (documents s ! 0)) = documents s"
proof -
  from assms have lk: "linked (documents s)" by (simp add: stacked_def)
  have "\<forall>d\<in>set (documents s). get_root_id s d = Some (dn_id (documents s ! 0))"
    using linked_root[OF lk] by (auto simp: in_set_conv_nth)
  then show ?thesis by (simp add: chain_def)
qed

lemma stacked_one_latest:
  assumes "stacked ds"
  shows "filter dn_is_latest ds = [last ds]"
proof -
  from assms have ne: "ds \<noteq> []"
    and latest: "\<And>k. k < length ds \<Longrightarrow> dn_is_latest (ds ! k) = (Suc k = length ds)"
    by (simp_all add: stacked_def)
  have "\<forall>d\<in>set (butlast ds). \<not> dn_is_latest d"
  proof
    fix d assume "d \<in> set (butlast ds)"
    then obtain k where k: "k < length (butlast ds)" "butlast ds ! k = d"
      by (auto simp: in_set_conv_nth)
    then have "k < length ds" "Suc k \<noteq> length ds" "ds ! k = d"
      by (simp_all add: nth_butlast)
    with latest[of k] show "\<not> dn_is_latest d" by simp
  qed
  then have a: "filter dn_is_latest (butlast ds) = []" by (simp add: filter_empty_conv)
  have "dn_is_latest (last ds)"
    using latest[of "length ds - 1"] ne by (simp add: last_conv_nth)
  with a have "filter dn_is_latest (butlast ds @ [last ds]) = [last ds]" by simp
  with ne show ?thesis by simp
qed

lemma stacked_versions:
  assumes "stacked ds"
  shows "map dn_version ds = [1..int (length ds)]"
proof (rule nth_equalityI)
  show "length (map dn_version ds) = length [1..int (length ds)]" by simp
next
  fix k assume "k < length (map dn_version ds)"
  then have k: "k < length ds" by simp
  with assms have "dn_version (ds ! k) = int k + 1" by (simp add: stacked_def)
  with k show "map dn_version ds ! k = [1..int (length ds)] ! k" by simp
qed

lemma calls_on_latest_take:
  "calls_on_latest s calls \<Longrightarrow> calls_on_latest s (take k calls)"
proof (induction calls arbitrary: s k)
  case Nil
  then show ?case by simp
next
  case (Cons c cs)
  show ?case
  proof (cases k)
    case 0
    then show ?thesis by simp
  next
    case (Suc k')
    with Cons.prems Cons.IH[of _ k'] show ?thesis
      by (auto split: option.splits)
  qed
qed

text \<open>
  The invariant holds when the calls are made as the claim supposes. Start from a
  document table whose only row is a root with version 1, \<open>is_latest\<close> set and no parent,
  and make any sequence of \<^verbatim>\<open>create_new_version\<close> calls in which no call is made on a
  superseded document and the keys drawn are new. Then after the first \<open>k\<close> calls, for
  every \<open>k\<close>, every call made has returned, every document belongs to the chain of the
  root, exactly one member of the chain has \<open>is_latest\<close> set, and the versions of the
  chain, in insertion order, are \<open>1, 2, ..., n\<close>.
\<close>

lemma one_latest_and_contiguous_versions:
  assumes "documents s0 = [root_doc]"
    and "dn_version root_doc = 1"
    and "dn_is_latest root_doc"
    and "dn_parent_version_id root_doc = None"
    and "calls_on_latest s0 calls"
  shows "\<exists>s. run_calls s0 (take k calls) = Some s
           \<and> chain s (dn_id root_doc) = documents s
           \<and> length (filter dn_is_latest (chain s (dn_id root_doc))) = 1
           \<and> map dn_version (chain s (dn_id root_doc))
               = [1..int (length (chain s (dn_id root_doc)))]"
proof -
  have st0: "stacked (documents s0)"
    using assms(1-4) by (simp add: stacked_def linked_def)
  from run_calls_stacked[OF st0 calls_on_latest_take[OF assms(5)]] assms(1)
  obtain s where s: "run_calls s0 (take k calls) = Some s" "stacked (documents s)"
    "dn_id (documents s ! 0) = dn_id root_doc" by auto
  from stacked_chain[OF s(2)] s(3) have c: "chain s (dn_id root_doc) = documents s" by simp
  from stacked_one_latest[OF s(2)] stacked_versions[OF s(2)] c s(1) show ?thesis by simp
qed

lemma one_latest_and_contiguous_versions_example:
  "documents example_single_root = [example_root]
   \<and> dn_version example_root = 1
   \<and> dn_is_latest example_root
   \<and> dn_parent_version_id example_root = None
   \<and> calls_on_latest example_single_root [example_call_first, example_call_on_latest]
   \<and> (\<exists>s. run_calls example_single_root [example_call_first, example_call_on_latest] = Some s
         \<and> chain s (dn_id example_root) = documents s
         \<and> length (filter dn_is_latest (chain s (dn_id example_root))) = 1
         \<and> map dn_version (chain s (dn_id example_root))
             = [1..int (length (chain s (dn_id example_root)))])"
proof -
  have h: "documents example_single_root = [example_root]"
    "dn_version example_root = 1"
    "dn_is_latest example_root"
    "dn_parent_version_id example_root = None"
    by (simp_all add: example_single_root_def example_root_def)
  have c: "calls_on_latest example_single_root [example_call_first, example_call_on_latest]"
    by code_simp
  from one_latest_and_contiguous_versions[OF h c, of 2] h c show ?thesis by simp
qed

text \<open>
  Claim C2 says that after any sequence of \<^verbatim>\<open>create_new_version\<close> calls from a single root
  exactly one member of the chain has \<open>is_latest\<close> set and the versions are contiguous from
  1. \<^verbatim>\<open>create_new_version\<close> accepts the id of a superseded member and stacks on it. After
  two calls that are both made on the root, every document still belongs to the chain of
  the root, the chain has the versions \<open>1, 2, 2\<close>, and two members, \<open>d2\<close> and \<open>d3\<close>, have
  \<open>is_latest\<close> set.
\<close>

theorem two_calls_on_root_fork_the_chain:
  "documents example_single_root = [example_root]
   \<and> dn_version example_root = 1
   \<and> dn_is_latest example_root
   \<and> dn_parent_version_id example_root = None
   \<and> run_calls example_single_root [example_call_first, example_call_on_root]
       = Some example_forked
   \<and> chain example_forked ''d1'' = documents example_forked
   \<and> map dn_id (filter dn_is_latest (chain example_forked ''d1'')) = [''d2'', ''d3'']
   \<and> map dn_version (chain example_forked ''d1'') = [1, 2, 2]"
  by code_simp

section \<open>Properties of the similarity service\<close>

lemma unpopular_run_le: "unpopular_run x m \<le> Suc m"
  by (induction m) auto

lemma unpopular_run_pos: "\<not> bpopular x (x ! m) \<Longrightarrow> 0 < unpopular_run x m"
  by (cases m) auto

lemma inner_loop_row_inv:
  assumes p1: "\<And>j. j \<in> set js \<Longrightarrow> Suc (j2len_before j2len j) \<le> unpopular_run x j"
    and p2: "\<And>j. j \<in> set js \<Longrightarrow> Suc (j2len_before j2len j) \<le> unpopular_run x i"
    and p3: "Suc (j2len_before j2len i) = unpopular_run x i"
    and bound: "\<And>j. j \<in> set js \<Longrightarrow> j < n"
  shows "sorted js \<Longrightarrow> distinct js \<Longrightarrow> seen \<or> i \<in> set js \<Longrightarrow> row_inv x i seen st
     \<Longrightarrow> row_inv x i True (inner_loop i 0 n j2len js st)"
  using p1 p2 bound
proof (induction js arbitrary: seen st)
  case Nil
  then show ?case by simp
next
  case (Cons j js)
  obtain new bi bj bs where st: "st = (new, bi, bj, bs)" by (cases st) auto
  let ?k = "Suc (j2len_before j2len j)"
  have jn: "j < n" using Cons.prems(7) by simp
  have kj: "?k \<le> unpopular_run x j" using Cons.prems(5) by simp
  have ki: "?k \<le> unpopular_run x i" using Cons.prems(6) by simp
  from Cons.prems(4) st have inv:
    "bi = bj" "bi + bs \<le> Suc i" "\<And>m. m < i \<Longrightarrow> unpopular_run x m \<le> bs"
    "\<And>j' k. new j' = Some k \<Longrightarrow> 1 \<le> k \<and> k \<le> unpopular_run x j' \<and> k \<le> unpopular_run x i"
    "seen \<Longrightarrow> new i = Some (unpopular_run x i) \<and> unpopular_run x i \<le> bs"
    by (auto simp: row_inv_def)
  have sorted: "sorted js" "distinct js" using Cons.prems(1,2) by simp_all
  have rest1: "\<And>j'. j' \<in> set js \<Longrightarrow> Suc (j2len_before j2len j') \<le> unpopular_run x j'"
    and rest2: "\<And>j'. j' \<in> set js \<Longrightarrow> Suc (j2len_before j2len j') \<le> unpopular_run x i"
    and rest3: "\<And>j'. j' \<in> set js \<Longrightarrow> j' < n"
    using Cons.prems(5,6,7) by simp_all
  let ?seen' = "seen \<or> j = i"
  have seen': "?seen' \<or> i \<in> set js" using Cons.prems(3) by auto
  text \<open>an update of the best match happens on the diagonal only\<close>
  have diag: "j = i" if "?k > bs"
  proof (rule ccontr)
    assume ne: "j \<noteq> i"
    show False
    proof (cases "j < i")
      case True
      from inv(3)[OF True] kj that show False by simp
    next
      case False
      with ne have gt: "i < j" by simp
      have "i \<notin> set (j # js)" using Cons.prems(1) gt by auto
      with Cons.prems(3) have seen by simp
      from inv(5)[OF this] ki that show False by simp
    qed
  qed
  have step: "inner_loop i 0 n j2len (j # js) st
      = inner_loop i 0 n j2len js
          (if ?k > bs then (new(j \<mapsto> ?k), Suc i - ?k, Suc j - ?k, ?k)
           else (new(j \<mapsto> ?k), bi, bj, bs))"
    using jn by (simp add: st j2len_before_def Let_def)
  have inv': "row_inv x i ?seen'
      (if ?k > bs then (new(j \<mapsto> ?k), Suc i - ?k, Suc j - ?k, ?k)
       else (new(j \<mapsto> ?k), bi, bj, bs))"
  proof (cases "?k > bs")
    case True
    from diag[OF True] have ji: "j = i" .
    have keq: "?k = unpopular_run x i" using p3 ji by simp
    have kle: "?k \<le> Suc i" using keq unpopular_run_le[of x i] by simp
    have "\<forall>m<i. unpopular_run x m \<le> ?k" using inv(3) True by (meson le_trans less_imp_le)
    moreover have "\<forall>j' k. (new(j \<mapsto> ?k)) j' = Some k \<longrightarrow>
        1 \<le> k \<and> k \<le> unpopular_run x j' \<and> k \<le> unpopular_run x i"
      using inv(4) kj ki by auto
    moreover have "(new(j \<mapsto> ?k)) i = Some (unpopular_run x i)"
      using ji keq by simp
    ultimately show ?thesis
      using True ji keq kle by (simp add: row_inv_def del: fun_upd_apply)
  next
    case False
    have "\<forall>j' k. (new(j \<mapsto> ?k)) j' = Some k \<longrightarrow>
        1 \<le> k \<and> k \<le> unpopular_run x j' \<and> k \<le> unpopular_run x i"
      using inv(4) kj ki by auto
    moreover have "?seen' \<longrightarrow> (new(j \<mapsto> ?k)) i = Some (unpopular_run x i) \<and> unpopular_run x i \<le> bs"
    proof
      assume s: ?seen'
      show "(new(j \<mapsto> ?k)) i = Some (unpopular_run x i) \<and> unpopular_run x i \<le> bs"
      proof (cases "j = i")
        case True
        with p3 False show ?thesis by simp
      next
        case ne: False
        with s have seen by simp
        from inv(5)[OF this] ne show ?thesis by simp
      qed
    qed
    ultimately show ?thesis
      using False inv(1,2,3) by (simp add: row_inv_def del: fun_upd_apply)
  qed
  from Cons.IH[OF sorted seen' inv' rest1 rest2 rest3] show ?case
    unfolding step by simp
qed

lemma unpopular_run_popular: "bpopular x (x ! m) \<Longrightarrow> unpopular_run x m = 0"
  by (cases m) auto

lemma indices_of_props:
  "sorted (indices_of x e)" "distinct (indices_of x e)"
  "j \<in> set (indices_of x e) \<longleftrightarrow> j < length x \<and> x ! j = e"
  by (auto simp: indices_of_def intro: sorted_wrt_filter)

lemma row_step:
  assumes i: "i < length x" and inv: "table_inv x i (j2len, bi, bj, bs)"
  shows "table_inv x (Suc i)
     (inner_loop i 0 (length x) j2len (b2j_get x (x ! i)) (Map.empty, bi, bj, bs))"
proof (cases "bpopular x (x ! i)")
  case True
  with inv unpopular_run_popular[OF True] show ?thesis
    by (auto simp: b2j_get_def table_inv_def less_Suc_eq)
next
  case False
  let ?js = "indices_of x (x ! i)"
  from inv have o: "bi = bj" "bi + bs \<le> i" "\<And>m. m < i \<Longrightarrow> unpopular_run x m \<le> bs"
    "\<And>j k. j2len j = Some k \<Longrightarrow>
        0 < i \<and> 1 \<le> k \<and> k \<le> unpopular_run x j \<and> k \<le> unpopular_run x (i - 1)"
    "0 < i \<and> \<not> bpopular x (x ! (i - 1)) \<Longrightarrow> j2len (i - 1) = Some (unpopular_run x (i - 1))"
    by (auto simp: table_inv_def)
  have before_le: "j2len_before j2len (Suc j) \<le> unpopular_run x j" for j
    using o(4)[of j] by (auto simp: j2len_before_def split: option.splits)
  have before_le_i: "j2len_before j2len j \<le> unpopular_run x (i - 1) \<and> (i = 0 \<longrightarrow> j2len_before j2len j = 0)" for j
    using o(4)[of "j - 1"] by (auto simp: j2len_before_def split: option.splits)
  have p1: "Suc (j2len_before j2len j) \<le> unpopular_run x j" if "j \<in> set ?js" for j
  proof -
    from that have "\<not> bpopular x (x ! j)" using False by (simp add: indices_of_props)
    then show ?thesis using before_le[of "j - 1"]
      by (cases j) (auto simp: j2len_before_def)
  qed
  have p2: "Suc (j2len_before j2len j) \<le> unpopular_run x i" for j
    using before_le_i[of j] False by (cases i) auto
  have p3: "Suc (j2len_before j2len i) = unpopular_run x i"
  proof (cases i)
    case 0
    with False show ?thesis by (simp add: j2len_before_def)
  next
    case (Suc i')
    show ?thesis
    proof (cases "bpopular x (x ! i')")
      case True
      from unpopular_run_popular[OF True] o(4)[of i'] Suc have "j2len i' = None"
        by (cases "j2len i'") auto
      with False Suc unpopular_run_popular[OF True] show ?thesis
        by (simp add: j2len_before_def)
    next
      case np: False
      with o(5) Suc have "j2len i' = Some (unpopular_run x i')" by simp
      with False Suc show ?thesis by (simp add: j2len_before_def)
    qed
  qed
  have init: "row_inv x i False (Map.empty, bi, bj, bs)"
    using o(1,2,3) by (simp add: row_inv_def)
  have mem: "False \<or> i \<in> set ?js" using i by (simp add: indices_of_props)
  have bound: "\<And>j. j \<in> set ?js \<Longrightarrow> j < length x" by (simp add: indices_of_props)
  from inner_loop_row_inv[of ?js j2len x i "length x" False "(Map.empty, bi, bj, bs)",
      OF p1 p2 p3 bound indices_of_props(1) indices_of_props(2) mem init]
  have r: "row_inv x i True (inner_loop i 0 (length x) j2len ?js (Map.empty, bi, bj, bs))"
    by simp
  obtain new bi' bj' bs' where res:
    "inner_loop i 0 (length x) j2len ?js (Map.empty, bi, bj, bs) = (new, bi', bj', bs')"
    by (cases "inner_loop i 0 (length x) j2len ?js (Map.empty, bi, bj, bs)") auto
  from r res have n: "bi' = bj'" "bi' + bs' \<le> Suc i" "\<And>m. m < i \<Longrightarrow> unpopular_run x m \<le> bs'"
    "\<And>j k. new j = Some k \<Longrightarrow> 1 \<le> k \<and> k \<le> unpopular_run x j \<and> k \<le> unpopular_run x i"
    "new i = Some (unpopular_run x i)" "unpopular_run x i \<le> bs'"
    by (auto simp: row_inv_def)
  have "\<forall>m<Suc i. unpopular_run x m \<le> bs'"
    using n(3,6) by (auto simp: less_Suc_eq)
  with n(1,2,4,5) have "table_inv x (Suc i) (new, bi', bj', bs')"
    by (auto simp: table_inv_def)
  with res False show ?thesis by (simp add: b2j_get_def)
qed

lemma outer_loop_table_inv:
  "i \<le> length x \<Longrightarrow> table_inv x i st
     \<Longrightarrow> table_inv x (length x) (outer_loop x x 0 (length x) [i..<length x] st)"
proof (induction "length x - i" arbitrary: i st)
  case 0
  then show ?case by simp
next
  case (Suc d)
  then have i: "i < length x" by simp
  obtain j2len bi bj bs where st: "st = (j2len, bi, bj, bs)" by (cases st) auto
  let ?st' = "inner_loop i 0 (length x) j2len (b2j_get x (x ! i)) (Map.empty, bi, bj, bs)"
  from row_step[OF i] Suc.prems(2) st have inv': "table_inv x (Suc i) ?st'" by simp
  have d: "d = length x - Suc i" using Suc.hyps(2) by simp
  from i have le: "Suc i \<le> length x" by simp
  have "outer_loop x x 0 (length x) [i..<length x] st
      = outer_loop x x 0 (length x) [Suc i..<length x] ?st'"
    using i by (cases ?st') (simp add: upt_conv_Cons st)
  with Suc.hyps(1)[OF d le inv'] show ?case by simp
qed

lemma extend_left_same: "extend_left x x 0 0 (d, d, k) = (0, 0, d + k)"
proof (induction d arbitrary: k)
  case 0
  show ?case by (simp add: extend_left.simps)
next
  case (Suc d)
  have "extend_left x x 0 0 (Suc d, Suc d, k) = extend_left x x 0 0 (d, d, Suc k)"
    by (subst extend_left.simps) simp
  with Suc[of "Suc k"] show ?case by simp
qed

lemma extend_right_same:
  "m \<le> length x \<Longrightarrow> extend_right x x (length x) (length x) (0, 0, m) = (0, 0, length x)"
proof (induction "length x - m" arbitrary: m)
  case 0
  then show ?case by (simp add: extend_right.simps)
next
  case (Suc d)
  then have lt: "m < length x" by simp
  then have "extend_right x x (length x) (length x) (0, 0, m)
      = extend_right x x (length x) (length x) (0, 0, Suc m)"
    by (subst extend_right.simps) simp
  moreover have "d = length x - Suc m" using Suc.hyps(2) by simp
  ultimately show ?case using Suc.hyps(1)[of "Suc m"] lt by simp
qed

lemma find_longest_match_same:
  "find_longest_match x x 0 (length x) 0 (length x) = (0, 0, length x)"
proof -
  have "table_inv x 0 (Map.empty, 0, 0, 0)" by (simp add: table_inv_def)
  from outer_loop_table_inv[OF _ this]
  have inv: "table_inv x (length x) (outer_loop x x 0 (length x) [0..<length x] (Map.empty, 0, 0, 0))"
    by simp
  obtain j2len bi bj bs where res:
    "outer_loop x x 0 (length x) [0..<length x] (Map.empty, 0, 0, 0) = (j2len, bi, bj, bs)"
    by (cases "outer_loop x x 0 (length x) [0..<length x] (Map.empty, 0, 0, 0)") auto
  with inv have "bi = bj" "bi + bs \<le> length x" by (auto simp: table_inv_def)
  with res show ?thesis
    by (simp add: find_longest_match_def extend_left_same extend_right_same)
qed

lemma matching_loop_same:
  "matching_loop x x [(0, length x, 0, length x)] []
     = Some (if length x = 0 then [] else [(0, 0, length x)])"
proof -
  have step: "matching_loop x x [(0, length x, 0, length x)] []
      = (if length x \<noteq> 0 then matching_loop x x [] [(0, 0, length x)]
         else matching_loop x x [] [])"
    by (subst matching_loop.simps) (simp add: find_longest_match_same)
  have fin: "matching_loop x x [] blocks = Some blocks" for blocks
    by (subst matching_loop.simps) simp
  show ?thesis unfolding step fin by simp
qed

lemma ratio_same: "ratio x x = Some 1"
  by (simp add: ratio_def get_matching_blocks_def matching_loop_same calculate_ratio_def)

text \<open>
  Claim C9. For every content \<open>x\<close>, comparing \<open>x\<close> with \<open>x\<close> gives the similarity 1 (the
  ratio is \<open>2 * len(x) / (2 * len(x))\<close>, or the constant 1.0 for the empty content, both
  exact in floating point), and \<^verbatim>\<open>compute_diff\<close> gives 0 added and 0 removed lines.
\<close>

theorem identical_content_similarity_one:
  "compute_similarity x x = Some 1
   \<and> added_lines (compute_diff unified_diff x x) = 0
   \<and> removed_lines (compute_diff unified_diff x x) = 0"
  by (simp add: compute_similarity_def ratio_same compute_diff_def gen_list_def gen_count_def)

theorem identical_content_similarity_one_witness:
  "compute_similarity ''# Title'' ''# Title'' = Some 1
   \<and> added_lines (compute_diff (\<lambda>a b. []) ''# Title'' ''# Title'') = 0
   \<and> removed_lines (compute_diff (\<lambda>a b. []) ''# Title'' ''# Title'') = 0"
  using identical_content_similarity_one[of "''# Title''" "\<lambda>a b. []"] by simp

end
